theory Spec2Isabelle
  imports Main "HOL-Library.Sublist"
begin

section \<open>Strings of the worker\<close>

text \<open>
  A JavaScript string is modelled as an Isabelle \<open>string\<close>: the sequence of the bytes of
  its UTF-8 form. The worker never takes the length of a string and never indexes one; it
  only concatenates strings, searches one string in another, lower-cases and replaces.
  Searching and replacing a well-formed text in a well-formed text is the same on the
  bytes as on the code units, and the glyphs of the messages are written as their UTF-8
  bytes.
\<close>

text \<open>
  \<open>String.prototype.toLowerCase\<close> is the engine's: it follows the Unicode case mapping
  (the Kelvin sign becomes \<open>k\<close>, a lowered text may be longer than the text). It is not
  defined here. Every function that lowers a text takes the engine's function as its
  argument \<open>toLowerCase\<close>, and the theorems hold whatever that function is. On a text of
  ASCII characters the engine's function is \<open>ascii_lower\<close>: \<open>A\<close>..\<open>Z\<close> (65..90)
  move to \<open>a\<close>..\<open>z\<close>; the example host below, whose texts are ASCII, has it.
\<close>

definition lower_char :: "char \<Rightarrow> char" where
  "lower_char c =
     (let n = (of_char c :: nat) in if 65 \<le> n \<and> n \<le> 90 then char_of (n + 32) else c)"

definition ascii_lower :: "string \<Rightarrow> string" where
  "ascii_lower s = map lower_char s"

text \<open>
  \<open>String.prototype.includes(k)\<close>: scan the start positions from the left; at each one
  compare the next \<open>length k\<close> characters with \<open>k\<close>.
\<close>

fun str_includes :: "string \<Rightarrow> string \<Rightarrow> bool" where
  "str_includes [] k = (k = [])"
| "str_includes (c # s) k = (take (length k) (c # s) = k \<or> str_includes s k)"

text \<open>
  \<open>String.prototype.replace(pattern, replacement)\<close> with a string pattern: the first
  occurrence of the pattern, found from the left, is replaced, and nothing else. (The
  replacement is taken as it is: the one replacement of the source, a space, has no
  \<open>$\<close> pattern.)
\<close>

fun str_replace :: "string \<Rightarrow> string \<Rightarrow> string \<Rightarrow> string" where
  "str_replace pat rep [] = (if pat = [] then rep else [])"
| "str_replace pat rep (c # s) =
     (if take (length pat) (c # s) = pat then rep @ drop (length pat) (c # s)
      else c # str_replace pat rep s)"

text \<open>\<open>Array.prototype.join(sep)\<close> on an array of strings.\<close>

fun join :: "string \<Rightarrow> string list \<Rightarrow> string" where
  "join sep [] = []"
| "join sep [x] = x"
| "join sep (x # y # xs) = x @ sep @ join sep (y # xs)"

text \<open>A natural number inside a template literal: its decimal digits.\<close>

definition digit_char :: "nat \<Rightarrow> char" where
  "digit_char d = char_of (48 + d)"

fun show_nat :: "nat \<Rightarrow> string" where
  "show_nat n = (if n < 10 then [digit_char n] else show_nat (n div 10) @ [digit_char (n mod 10)])"

declare show_nat.simps [simp del]

text \<open>
  Truthiness of an optional string: \<open>undefined\<close>, \<open>null\<close> and the empty string are
  falsy. \<open>or_else v d\<close> is the expression \<open>v || d\<close>.
\<close>

definition truthy :: "string option \<Rightarrow> bool" where
  "truthy v = (case v of None \<Rightarrow> False | Some s \<Rightarrow> s \<noteq> [])"

definition or_else :: "string option \<Rightarrow> string \<Rightarrow> string" where
  "or_else v d = (case v of None \<Rightarrow> d | Some s \<Rightarrow> if s = [] then d else s)"

text \<open>The glyphs of the messages, as UTF-8 bytes, and the line feed.\<close>

definition glyph_check :: string where
  "glyph_check = [CHR 0xE2, CHR 0x9C, CHR 0x85]"

definition glyph_warning :: string where
  "glyph_warning = [CHR 0xE2, CHR 0x9A, CHR 0xA0, CHR 0xEF, CHR 0xB8, CHR 0x8F]"

definition glyph_cross :: string where
  "glyph_cross = [CHR 0xE2, CHR 0x9D, CHR 0x8C]"

definition glyph_globe :: string where
  "glyph_globe = [CHR 0xF0, CHR 0x9F, CHR 0x8C, CHR 0x90]"

definition glyph_siren :: string where
  "glyph_siren = [CHR 0xF0, CHR 0x9F, CHR 0x9A, CHR 0xA8]"

definition glyph_magnifier_left :: string where
  "glyph_magnifier_left = [CHR 0xF0, CHR 0x9F, CHR 0x94, CHR 0x8D]"

definition glyph_magnifier_right :: string where
  "glyph_magnifier_right = [CHR 0xF0, CHR 0x9F, CHR 0x94, CHR 0x8E]"

definition glyph_eyes :: string where
  "glyph_eyes = [CHR 0xF0, CHR 0x9F, CHR 0x91, CHR 0x80]"

definition glyph_memo :: string where
  "glyph_memo = [CHR 0xF0, CHR 0x9F, CHR 0x93, CHR 0x9D]"

definition newline :: string where
  "newline = [CHR 0x0A]"

section \<open>Data of the status API\<close>

text \<open>
  The documents are the parsed JSON of the status API. A field that the code tests for
  presence is an \<open>option\<close> (\<open>None\<close>: the key is absent or \<open>null\<close>; both are falsy and
  both fail a property access alike); the other fields have the type the API gives them.
  The fields of one JavaScript object are prefixed by the object they belong to:
  \<open>c_\<close> component, \<open>o_\<close> the overall status object, \<open>u_\<close> incident update,
  \<open>i_\<close> incident, \<open>d_\<close> the document (the \<open>data\<close> of the source).
\<close>

record component =
  c_name :: string
  c_description :: "string option"
  c_status :: "string option"

record overall =
  o_description :: "string option"

record incident_update =
  u_status :: "string option"
  u_body :: string
  u_created_at :: string

record incident =
  i_name :: string
  i_status :: "string option"
  i_impact :: "string option"
  i_monitoring :: bool
  i_incident_updates :: "incident_update list option"
  i_components :: "component list option"

text \<open>
  One record for the documents of the API (\<open>status.json\<close>, the components listing, the
  unresolved incidents): each key that the code reads, present or not. The record is
  extensible: its \<open>more\<close> part stands for every other key of the document (\<open>page\<close>,
  ...), which the code copies along without reading.
\<close>

record document =
  d_status :: "overall option"
  d_components :: "component list option"
  d_incidents :: "incident list option"

section \<open>Configuration constants\<close>

definition API_BASE_URL :: string where
  "API_BASE_URL = ''https://www.cloudflarestatus.com/api/v2''"

definition ENDPOINTS_components :: string where
  "ENDPOINTS_components = API_BASE_URL @ ''/status.json''"

definition ENDPOINTS_incidents :: string where
  "ENDPOINTS_incidents = API_BASE_URL @ ''/incidents/unresolved.json''"

definition ICN_KEYWORDS :: "string list" where
  "ICN_KEYWORDS = [''icn'', ''seoul'', ''korea'', ''south korea'']"

section \<open>The keyword filter\<close>

text \<open>
  The callback of \<open>components.filter\<close> in \<open>filterForICN\<close>. The keyword list is the
  module constant \<open>ICN_KEYWORDS\<close> in the source; it is a parameter here, and
  \<open>fetchICNComponentsStatus\<close> below is the place that passes it. The keywords are
  searched as they are; only the name and the description are lowered.
\<close>

definition icn_match :: "(string \<Rightarrow> string) \<Rightarrow> string list \<Rightarrow> component \<Rightarrow> bool" where
  "icn_match toLowerCase keywords component =
     (let name = toLowerCase (c_name component);
          description = toLowerCase (case c_description component of None \<Rightarrow> [] | Some d \<Rightarrow> d)
      in list_ex (\<lambda>keyword. str_includes name keyword \<or> str_includes description keyword) keywords)"

text \<open>
  \<open>filterForICN\<close>. The copy \<open>JSON.parse(JSON.stringify(data))\<close> of a parsed JSON
  document is the document itself as a value (the store model further down has the copy
  as an allocation, and is shown to compute this function). An array, also the empty one, is truthy, so the guard
  \<open>if (filteredData.components)\<close> is the test for presence.
\<close>

definition filterForICN ::
  "(string \<Rightarrow> string) \<Rightarrow> string list \<Rightarrow> 'a document_scheme \<Rightarrow> 'a document_scheme" where
  "filterForICN toLowerCase keywords data =
     (let filteredData = data
      in case d_components filteredData of
           None \<Rightarrow> filteredData
         | Some cs \<Rightarrow> filteredData\<lparr>d_components :=
                                      Some (filter (icn_match toLowerCase keywords) cs)\<rparr>)"

section \<open>Errors, responses and effects\<close>

text \<open>
  What the code can throw: an \<open>Error\<close> with its message (the \<open>throw new Error\<close> of
  the source), the engine's \<open>TypeError\<close> for a method call on \<open>undefined\<close> or
  \<open>null\<close>, the \<open>SyntaxError\<close> of \<open>response.json()\<close> on a body that is not JSON, and
  the rejection of \<open>fetch\<close> itself when no response arrives.
\<close>

datatype error = Error string | TypeError | SyntaxError | NetworkError

text \<open>
  A response of \<open>fetch\<close>: the status line and the result of \<open>json()\<close> (\<open>None\<close>: the
  body does not parse). \<open>response.ok\<close> is defined by the Fetch standard as a status in
  200..299.
\<close>

record 'j response =
  r_status :: nat
  r_statusText :: string
  r_json :: "'j option"

definition r_ok :: "('j, 'b) response_scheme \<Rightarrow> bool" where
  "r_ok r = (200 \<le> r_status r \<and> r_status r \<le> 299)"

text \<open>The blocks of a Slack message, one constructor for each shape the code builds.\<close>

datatype block = Header string | Divider | Section string | Context string

record payload =
  p_blocks :: "block list"
  p_text :: string

text \<open>
  The effects of a run, in the order they happen: a line on \<open>console.error\<close> (with the
  error object logged beside the text, if any), a GET of an upstream URL, a POST of a
  payload to the webhook.
\<close>

datatype event = ConsoleError string "error option" | Fetch string | Post string payload

text \<open>
  What the outside answers in one run: the response (or the rejection) of each \<open>fetch\<close>
  in the order the code issues them. The two fetches of the components check are two
  requests, so they have an answer each.
\<close>

record 'a upstream =
  up_components :: "error + ('a document_scheme) response"
  up_status :: "error + ('a document_scheme) response"
  up_incidents :: "error + ('a document_scheme) response"
  up_webhook :: "error + unit response"

text \<open>The worker's environment: \<open>env[SLACK_CONFIG.webhookEnvKey]\<close>.\<close>

record env =
  SLACK_WEBHOOK_URL :: "string option"

text \<open>
  The clock, the locale and the case mapping are the host's: \<open>h_now\<close> is
  \<open>new Date().toISOString()\<close>, \<open>h_toLocaleString t\<close> is
  \<open>new Date(t).toLocaleString()\<close> and \<open>h_toLowerCase s\<close> is \<open>s.toLowerCase()\<close>.
\<close>

record host =
  h_now :: string
  h_toLocaleString :: "string \<Rightarrow> string"
  h_toLowerCase :: "string \<Rightarrow> string"

text \<open>
  A run is its result, an error thrown or a value returned, with its effects. Every
  \<open>catch\<close> of the client and of the checks is the same: \<open>console.error(what, error)\<close>,
  then \<open>throw error\<close>.
\<close>

definition rethrow :: "string \<Rightarrow> (error + 'r) \<times> event list \<Rightarrow> (error + 'r) \<times> event list" where
  "rethrow what run =
     (case run of
        (Inl e, evs) \<Rightarrow> (Inl e, evs @ [ConsoleError what (Some e)])
      | (Inr v, evs) \<Rightarrow> (Inr v, evs))"

section \<open>The status API client\<close>

definition http_error :: "string \<Rightarrow> ('j, 'b) response_scheme \<Rightarrow> error" where
  "http_error what r = Error (what @ show_nat (r_status r) @ '' '' @ r_statusText r)"

text \<open>The object literal \<open>{...statusData, components: componentsData.components || []}\<close>.\<close>

definition combinedData :: "'a document_scheme \<Rightarrow> 'b document_scheme \<Rightarrow> 'a document_scheme" where
  "combinedData statusData componentsData =
     statusData\<lparr>d_components :=
       Some (case d_components componentsData of None \<Rightarrow> [] | Some cs \<Rightarrow> cs)\<rparr>"

text \<open>The \<open>try\<close> block of \<open>fetchICNComponentsStatus\<close>.\<close>

definition fetchICNComponentsStatus_try ::
  "(string \<Rightarrow> string) \<Rightarrow> string list \<Rightarrow> 'a upstream
     \<Rightarrow> (error + 'a document_scheme) \<times> event list" where
  "fetchICNComponentsStatus_try toLowerCase keywords up =
     (case up_components up of
        Inl e \<Rightarrow> (Inl e, [Fetch ENDPOINTS_components])
      | Inr componentsResponse \<Rightarrow>
          if \<not> r_ok componentsResponse
          then (Inl (http_error ''Failed to fetch components data: '' componentsResponse),
                [Fetch ENDPOINTS_components])
          else
            (case up_status up of
               Inl e \<Rightarrow> (Inl e, [Fetch ENDPOINTS_components, Fetch (API_BASE_URL @ ''/status.json'')])
             | Inr statusResponse \<Rightarrow>
                 (if \<not> r_ok statusResponse
                  then Inl (http_error ''Failed to fetch status data: '' statusResponse)
                  else
                    (case r_json componentsResponse of
                       None \<Rightarrow> Inl SyntaxError
                     | Some componentsData \<Rightarrow>
                         (case r_json statusResponse of
                            None \<Rightarrow> Inl SyntaxError
                          | Some statusData \<Rightarrow>
                              Inr (filterForICN toLowerCase keywords
                                     (combinedData statusData componentsData)))),
                  [Fetch ENDPOINTS_components, Fetch (API_BASE_URL @ ''/status.json'')])))"

definition fetchICNComponentsStatus ::
  "host \<Rightarrow> 'a upstream \<Rightarrow> (error + 'a document_scheme) \<times> event list" where
  "fetchICNComponentsStatus h up =
     rethrow ''Error fetching ICN components status:''
       (fetchICNComponentsStatus_try (h_toLowerCase h) ICN_KEYWORDS up)"

definition fetchUnresolvedIncidents_try ::
  "'a upstream \<Rightarrow> (error + 'a document_scheme) \<times> event list" where
  "fetchUnresolvedIncidents_try up =
     (case up_incidents up of
        Inl e \<Rightarrow> Inl e
      | Inr response \<Rightarrow>
          if \<not> r_ok response
          then Inl (http_error ''Failed to fetch incidents data: '' response)
          else (case r_json response of None \<Rightarrow> Inl SyntaxError | Some v \<Rightarrow> Inr v),
      [Fetch ENDPOINTS_incidents])"

definition fetchUnresolvedIncidents ::
  "'a upstream \<Rightarrow> (error + 'a document_scheme) \<times> event list" where
  "fetchUnresolvedIncidents up =
     rethrow ''Error fetching unresolved incidents:'' (fetchUnresolvedIncidents_try up)"

section \<open>The Slack formatter\<close>

text \<open>
  The body of the \<open>forEach\<close> over the components: the glyph, then the line. The call
  \<open>component.status.replace\<close> is a method call on the status, whatever it is.
\<close>

definition component_line :: "component \<Rightarrow> error + block" where
  "component_line component =
     (let statusEmoji =
            (if c_status component \<noteq> Some ''operational''
             then (if c_status component = Some ''degraded_performance''
                   then glyph_warning else glyph_cross)
             else glyph_check)
      in case c_status component of
           None \<Rightarrow> Inl TypeError
         | Some status \<Rightarrow>
             Inr (Section (statusEmoji @ '' *'' @ c_name component @ ''*: ''
                           @ str_replace ''_'' '' '' status)))"

text \<open>The \<open>forEach\<close>: the first throw ends the loop and the function.\<close>

fun component_lines :: "component list \<Rightarrow> error + block list" where
  "component_lines [] = Inr []"
| "component_lines (c # cs) =
     (case component_line c of
        Inl e \<Rightarrow> Inl e
      | Inr b \<Rightarrow> (case component_lines cs of Inl e \<Rightarrow> Inl e | Inr bs \<Rightarrow> Inr (b # bs)))"

definition formatComponentsPayload :: "host \<Rightarrow> 'a document_scheme \<Rightarrow> error + payload" where
  "formatComponentsPayload h data =
     (let blocks = [Header (glyph_globe @ '' Cloudflare ICN (Seoul) Status Update''), Divider];
          blocks = blocks @
            (case d_status data of
               None \<Rightarrow> []
             | Some st \<Rightarrow> [Section (''*Overall Status:* '' @ or_else (o_description st) ''Unknown'')]);
          listed =
            (case d_components data of
               None \<Rightarrow> Inr [Section ''_No ICN components found_'']
             | Some cs \<Rightarrow>
                 if length cs > 0
                 then (case component_lines cs of
                         Inl e \<Rightarrow> Inl e
                       | Inr ls \<Rightarrow> Inr (Section ''*ICN Components:*'' # ls))
                 else Inr [Section ''_No ICN components found_''])
      in case listed of
           Inl e \<Rightarrow> Inl e
         | Inr ls \<Rightarrow>
             Inr \<lparr>p_blocks = blocks @ ls @ [Context (''Last updated: '' @ h_now h)],
                  p_text = ''Cloudflare ICN (Seoul) Status Update''\<rparr>)"

definition getStatusEmoji :: "(string \<Rightarrow> string) \<Rightarrow> string option \<Rightarrow> string" where
  "getStatusEmoji toLowerCase status =
     (if \<not> truthy status then glyph_warning
      else
        (let status = toLowerCase (or_else status [])
         in if status = ''investigating'' then glyph_magnifier_left
            else if status = ''identified'' then glyph_magnifier_right
            else if status = ''monitoring'' then glyph_eyes
            else if status = ''resolved'' then glyph_check
            else if status = ''postmortem'' then glyph_memo
            else glyph_warning))"

text \<open>
  The callback of \<open>updates.forEach((update, index) => ...)\<close> pushes two blocks: the
  entry of the update, then its time. \<open>n\<close> is \<open>updates.length\<close>, the length of the
  slice.
\<close>

definition update_entry :: "nat \<Rightarrow> nat \<times> incident_update \<Rightarrow> block" where
  "update_entry n iu =
     (case iu of (index, update) \<Rightarrow>
        (let updateStatus = (if truthy (u_status update)
                             then ''['' @ or_else (u_status update) [] @ '']'' else [])
         in Section ((if index = 0 then ''*Latest Update:*''
                      else ''*Update '' @ show_nat (n - index) @ '':*'')
                     @ '' '' @ updateStatus @ newline @ u_body update)))"

definition update_time :: "host \<Rightarrow> nat \<times> incident_update \<Rightarrow> block" where
  "update_time h iu =
     (case iu of (index, update) \<Rightarrow>
        (let updateTime = h_toLocaleString h (u_created_at update)
         in Context (''Updated: '' @ updateTime)))"

definition update_blocks :: "host \<Rightarrow> nat \<Rightarrow> nat \<times> incident_update \<Rightarrow> block list" where
  "update_blocks h n iu = [update_entry n iu, update_time h iu]"

text \<open>The timeline of one incident: \<open>slice(0, 3)\<close> is \<open>take 3\<close>.\<close>

definition timeline_blocks :: "host \<Rightarrow> incident \<Rightarrow> block list" where
  "timeline_blocks h incident =
     (case i_incident_updates incident of
        None \<Rightarrow> []
      | Some incident_updates \<Rightarrow>
          if length incident_updates > 0
          then
            (let updates = take 3 incident_updates
             in [Section ''*Incident Timeline:*'']
                @ concat (map (update_blocks h (length updates)) (enumerate 0 updates))
                @ (if length incident_updates > 3
                   then [Context (''_'' @ show_nat (length incident_updates - 3)
                                  @ '' more updates not shown_'')]
                   else []))
          else [])"

text \<open>The callback of \<open>data.incidents.forEach\<close>: all the blocks of one incident.\<close>

definition incident_blocks :: "host \<Rightarrow> incident \<Rightarrow> block list" where
  "incident_blocks h incident =
     (let impactText = (if truthy (i_impact incident)
                        then ''Impact: '' @ or_else (i_impact incident) [] else []);
          monitoringText = (if i_monitoring incident
                            then glyph_magnifier_left @ '' Being monitored'' else []);
          statusEmoji = getStatusEmoji (h_toLowerCase h) (i_status incident)
      in [Section (statusEmoji @ '' *'' @ i_name incident @ ''*'' @ newline
                   @ ''*Status:* '' @ or_else (i_status incident) ''Unknown''
                   @ (if impactText \<noteq> [] then newline @ ''*'' @ impactText @ ''*'' else [])
                   @ (if monitoringText \<noteq> [] then newline @ monitoringText else []))]
         @ timeline_blocks h incident
         @ (case i_components incident of
              None \<Rightarrow> []
            | Some cs \<Rightarrow>
                if length cs > 0
                then [Section (''*Affected Components:* '' @ join '', '' (map c_name cs))]
                else [])
         @ [Divider])"

definition formatIncidentsPayload :: "host \<Rightarrow> 'a document_scheme \<Rightarrow> payload" where
  "formatIncidentsPayload h data =
     \<lparr>p_blocks =
        [Header (glyph_siren @ '' Cloudflare Incident Alert''), Divider]
        @ (case d_incidents data of
             None \<Rightarrow> [Section ''_No active incidents reported_'']
           | Some incidents \<Rightarrow>
               if length incidents > 0
               then concat (map (incident_blocks h) incidents)
               else [Section ''_No active incidents reported_''])
        @ [Context (''Last checked: '' @ h_now h)],
      p_text = ''Cloudflare Incident Alert''\<rparr>"

definition formatSlackPayload :: "host \<Rightarrow> 'a document_scheme \<Rightarrow> string \<Rightarrow> error + payload" where
  "formatSlackPayload h data type =
     (if type = ''components'' then formatComponentsPayload h data
      else if type = ''incidents'' then Inr (formatIncidentsPayload h data)
      else Inl (Error (''Unknown notification type: '' @ type)))"

section \<open>Sending the notification\<close>

text \<open>
  The \<open>try\<close> block of \<open>sendSlackNotification\<close>: what it returns or throws, and the
  effects up to that point.
\<close>

definition sendSlackNotification_try ::
  "host \<Rightarrow> 'a upstream \<Rightarrow> env \<Rightarrow> 'a document_scheme \<Rightarrow> string \<Rightarrow> (error + bool) \<times> event list" where
  "sendSlackNotification_try h up env data type =
     (let webhookUrl = SLACK_WEBHOOK_URL env
      in if \<not> truthy webhookUrl
         then (Inr False, [ConsoleError ''Slack webhook URL not configured'' None])
         else
           (case formatSlackPayload h data type of
              Inl e \<Rightarrow> (Inl e, [])
            | Inr payload \<Rightarrow>
                (case up_webhook up of
                   Inl e \<Rightarrow> Inl e
                 | Inr response \<Rightarrow>
                     if \<not> r_ok response
                     then Inl (http_error ''Failed to send Slack notification: '' response)
                     else Inr True,
                 [Post (or_else webhookUrl []) payload])))"

text \<open>
  The \<open>catch\<close> of \<open>sendSlackNotification\<close> takes every error: it logs it and returns
  \<open>false\<close>.
\<close>

definition sendSlackNotification ::
  "host \<Rightarrow> 'a upstream \<Rightarrow> env \<Rightarrow> 'a document_scheme \<Rightarrow> string \<Rightarrow> (error + bool) \<times> event list" where
  "sendSlackNotification h up env data type =
     (case sendSlackNotification_try h up env data type of
        (Inl e, evs) \<Rightarrow> (Inr False, evs @ [ConsoleError ''Error sending Slack notification:'' (Some e)])
      | (Inr b, evs) \<Rightarrow> (Inr b, evs))"

section \<open>The two checks\<close>

record 'a components_result =
  cr_status :: string
  cr_message :: string
  cr_hasIssues :: "bool option"
  cr_data :: "'a document_scheme"

record 'a incidents_result =
  ir_status :: string
  ir_message :: string
  ir_incidentsCount :: nat
  ir_data :: "'a document_scheme"

text \<open>
  The expression \<open>componentsData.components && componentsData.components.some(...)\<close>:
  \<open>undefined\<close> (\<open>None\<close>) when there is no components key, a boolean otherwise.
\<close>

definition hasIssues :: "'a document_scheme \<Rightarrow> bool option" where
  "hasIssues componentsData =
     (case d_components componentsData of
        None \<Rightarrow> None
      | Some cs \<Rightarrow> Some (list_ex (\<lambda>component. c_status component \<noteq> Some ''operational'') cs))"

text \<open>
  \<open>checkICNComponents\<close> as the first entry point has it (\<open>notify_always\<close> false): the
  notification is sent when \<open>hasIssues\<close> is truthy; and as the second entry point has it
  (\<open>notify_always\<close> true): the notification is sent on every run. The two bodies differ in
  nothing else. The result of the send is not read; an error thrown by it would reach
  the \<open>catch\<close>.
\<close>

definition checkICNComponents_try ::
  "bool \<Rightarrow> host \<Rightarrow> 'a upstream \<Rightarrow> env \<Rightarrow> (error + 'a components_result) \<times> event list" where
  "checkICNComponents_try notify_always h up env =
     (case fetchICNComponentsStatus h up of
        (Inl e, evs) \<Rightarrow> (Inl e, evs)
      | (Inr componentsData, evs) \<Rightarrow>
          (let result = \<lparr>cr_status = ''success'', cr_message = ''ICN components status checked'',
                         cr_hasIssues = hasIssues componentsData, cr_data = componentsData\<rparr>
           in if notify_always \<or> hasIssues componentsData = Some True
              then (case sendSlackNotification h up env componentsData ''components'' of
                      (Inl e, evs') \<Rightarrow> (Inl e, evs @ evs')
                    | (Inr sent, evs') \<Rightarrow> (Inr result, evs @ evs'))
              else (Inr result, evs)))"

definition checkICNComponents ::
  "host \<Rightarrow> 'a upstream \<Rightarrow> env \<Rightarrow> (error + 'a components_result) \<times> event list" where
  "checkICNComponents h up env =
     rethrow ''Error checking ICN components status:'' (checkICNComponents_try False h up env)"

definition checkICNComponents_always ::
  "host \<Rightarrow> 'a upstream \<Rightarrow> env \<Rightarrow> (error + 'a components_result) \<times> event list" where
  "checkICNComponents_always h up env =
     rethrow ''Error checking ICN components status:'' (checkICNComponents_try True h up env)"

definition checkUnresolvedIncidents_try ::
  "host \<Rightarrow> 'a upstream \<Rightarrow> env \<Rightarrow> (error + 'a incidents_result) \<times> event list" where
  "checkUnresolvedIncidents_try h up env =
     (case fetchUnresolvedIncidents up of
        (Inl e, evs) \<Rightarrow> (Inl e, evs)
      | (Inr incidentsData, evs) \<Rightarrow>
          (let result = \<lparr>ir_status = ''success'', ir_message = ''Unresolved incidents checked'',
                         ir_incidentsCount =
                           (case d_incidents incidentsData of
                              None \<Rightarrow> 0 | Some incidents \<Rightarrow> length incidents),
                         ir_data = incidentsData\<rparr>
           in if (case d_incidents incidentsData of
                    None \<Rightarrow> False | Some incidents \<Rightarrow> length incidents > 0)
              then (case sendSlackNotification h up env incidentsData ''incidents'' of
                      (Inl e, evs') \<Rightarrow> (Inl e, evs @ evs')
                    | (Inr sent, evs') \<Rightarrow> (Inr result, evs @ evs'))
              else (Inr result, evs)))"

definition checkUnresolvedIncidents ::
  "host \<Rightarrow> 'a upstream \<Rightarrow> env \<Rightarrow> (error + 'a incidents_result) \<times> event list" where
  "checkUnresolvedIncidents h up env =
     rethrow ''Error checking unresolved incidents:'' (checkUnresolvedIncidents_try h up env)"

text \<open>
  Reading a message back: a block is the entry of a timeline update when it is a section
  whose text starts with the label of an entry.
\<close>

fun is_update_entry :: "block \<Rightarrow> bool" where
  "is_update_entry (Section s) = (prefix ''*Latest Update:*'' s \<or> prefix ''*Update '' s)"
| "is_update_entry b = False"

text \<open>Whether a run tried to reach the webhook.\<close>

fun is_post :: "event \<Rightarrow> bool" where
  "is_post (Post url p) = True"
| "is_post e = False"

section \<open>The filter on a store\<close>

text \<open>
  For the effect of the filter on its argument the objects live in a store. A value is a
  primitive or a reference to an object of the store; an object is a list of members
  (with distinct keys) or an array; the store is the list of the objects allocated so
  far, the address of an object being its position, so that allocation appends. The
  stores of the worker hold parsed JSON only: there is no \<open>undefined\<close> inside an object
  (a missing member is \<open>None\<close> when it is read), and numbers are carried as integers,
  which no path of the filter computes with.
\<close>

datatype jsval = Null | Bool bool | Num int | Str string | Ref nat

datatype obj = Object "(string \<times> jsval) list" | Array "jsval list"

type_synonym heap = "obj list"

text \<open>The text that \<open>JSON.stringify\<close> writes and \<open>JSON.parse\<close> reads, as its syntax tree.\<close>

datatype json =
  JNull | JBool bool | JNum int | JStr string | JArray "json list" | JObject "(string \<times> json) list"

definition deref :: "heap \<Rightarrow> nat \<Rightarrow> obj option" where
  "deref h a = (if a < length h then Some (h ! a) else None)"

text \<open>
  Results of the serialisation of the parts of an object, in order: the first error is
  the error of the whole; \<open>None\<close> is a traversal that ran out of steps.
\<close>

fun all_results :: "(error + 'a) option list \<Rightarrow> (error + 'a list) option" where
  "all_results [] = Some (Inr [])"
| "all_results (r # rs) =
     (case r of
        None \<Rightarrow> None
      | Some (Inl e) \<Rightarrow> Some (Inl e)
      | Some (Inr x) \<Rightarrow>
          (case all_results rs of
             None \<Rightarrow> None
           | Some (Inl e) \<Rightarrow> Some (Inl e)
           | Some (Inr xs) \<Rightarrow> Some (Inr (x # xs))))"

definition map_result :: "('a \<Rightarrow> 'b) \<Rightarrow> (error + 'a) option \<Rightarrow> (error + 'b) option" where
  "map_result f r = map_option (map_sum id f) r"

text \<open>
  \<open>JSON.stringify\<close> walks the object with the stack of the objects it is inside and
  throws a \<open>TypeError\<close> when it meets one of them again (a circular structure). The first
  argument bounds the depth of the walk. A reference outside the store does not exist in
  JavaScript; the walk fails on it.
\<close>

fun stringify :: "nat \<Rightarrow> nat list \<Rightarrow> heap \<Rightarrow> jsval \<Rightarrow> (error + json) option" where
  "stringify 0 stack h v = None"
| "stringify (Suc n) stack h Null = Some (Inr JNull)"
| "stringify (Suc n) stack h (Bool b) = Some (Inr (JBool b))"
| "stringify (Suc n) stack h (Num i) = Some (Inr (JNum i))"
| "stringify (Suc n) stack h (Str s) = Some (Inr (JStr s))"
| "stringify (Suc n) stack h (Ref a) =
     (if a \<in> set stack then Some (Inl TypeError)
      else
        (case deref h a of
           None \<Rightarrow> Some (Inl TypeError)
         | Some (Array xs) \<Rightarrow>
             map_result JArray (all_results (map (stringify n (a # stack) h) xs))
         | Some (Object fs) \<Rightarrow>
             map_result JObject
               (all_results
                  (map (\<lambda>m. map_result (Pair (fst m)) (stringify n (a # stack) h (snd m))) fs))))"

text \<open>
  The depth of a walk without a repetition is at most the number of objects of the
  store, so this bound is never reached (\<open>JSON_stringify_total\<close> below).
\<close>

definition JSON_stringify :: "heap \<Rightarrow> jsval \<Rightarrow> (error + json) option" where
  "JSON_stringify h v = stringify (Suc (length h)) [] h v"

text \<open>
  \<open>JSON.parse\<close> allocates a new object for every object and array of the text, the
  parts before the whole.
\<close>

fun JSON_parse :: "json \<Rightarrow> heap \<Rightarrow> jsval \<times> heap"
  and parse_elements :: "json list \<Rightarrow> heap \<Rightarrow> jsval list \<times> heap"
  and parse_members :: "(string \<times> json) list \<Rightarrow> heap \<Rightarrow> (string \<times> jsval) list \<times> heap" where
  "JSON_parse JNull h = (Null, h)"
| "JSON_parse (JBool b) h = (Bool b, h)"
| "JSON_parse (JNum i) h = (Num i, h)"
| "JSON_parse (JStr s) h = (Str s, h)"
| "JSON_parse (JArray js) h =
     (case parse_elements js h of (vs, h') \<Rightarrow> (Ref (length h'), h' @ [Array vs]))"
| "JSON_parse (JObject ms) h =
     (case parse_members ms h of (fs, h') \<Rightarrow> (Ref (length h'), h' @ [Object fs]))"
| "parse_elements [] h = ([], h)"
| "parse_elements (j # js) h =
     (case JSON_parse j h of (v, h') \<Rightarrow>
        (case parse_elements js h' of (vs, h'') \<Rightarrow> (v # vs, h'')))"
| "parse_members [] h = ([], h)"
| "parse_members (m # ms) h =
     (case JSON_parse (snd m) h of (v, h') \<Rightarrow>
        (case parse_members ms h' of (fs, h'') \<Rightarrow> ((fst m, v) # fs, h'')))"

text \<open>
  Reading a member \<open>v.key\<close>, for the keys the filter reads (\<open>components\<close>, \<open>name\<close>,
  \<open>description\<close>): a \<open>TypeError\<close> on \<open>null\<close>, \<open>undefined\<close> (\<open>None\<close>) on a primitive, on
  an array and on an object without the key.
\<close>

definition get_prop :: "heap \<Rightarrow> jsval \<Rightarrow> string \<Rightarrow> error + jsval option" where
  "get_prop h v key =
     (case v of
        Null \<Rightarrow> Inl TypeError
      | Ref a \<Rightarrow>
          (case deref h a of
             Some (Object fs) \<Rightarrow> Inr (map_of fs key)
           | Some (Array xs) \<Rightarrow> Inr None
           | None \<Rightarrow> Inl TypeError)
      | _ \<Rightarrow> Inr None)"

fun truthy_val :: "jsval option \<Rightarrow> bool" where
  "truthy_val None = False"
| "truthy_val (Some Null) = False"
| "truthy_val (Some (Bool b)) = b"
| "truthy_val (Some (Num i)) = (i \<noteq> 0)"
| "truthy_val (Some (Str s)) = (s \<noteq> [])"
| "truthy_val (Some (Ref a)) = True"

text \<open>
  The callback of the filter on a component of the store. \<open>name.toLowerCase()\<close> needs a
  string; so does the description when it is truthy.
\<close>

definition icn_callback ::
  "(string \<Rightarrow> string) \<Rightarrow> string list \<Rightarrow> heap \<Rightarrow> jsval \<Rightarrow> error + bool" where
  "icn_callback toLowerCase keywords h component =
     (case get_prop h component ''name'' of
        Inl e \<Rightarrow> Inl e
      | Inr (Some (Str n)) \<Rightarrow>
          (let name = toLowerCase n
           in case get_prop h component ''description'' of
                Inl e \<Rightarrow> Inl e
              | Inr d \<Rightarrow>
                  (case (if truthy_val d then d else Some (Str [])) of
                     Some (Str s) \<Rightarrow>
                       (let description = toLowerCase s
                        in Inr (list_ex (\<lambda>keyword. str_includes name keyword
                                           \<or> str_includes description keyword) keywords))
                   | _ \<Rightarrow> Inl TypeError))
      | Inr _ \<Rightarrow> Inl TypeError)"

text \<open>\<open>Array.prototype.filter\<close> with a callback that may throw.\<close>

fun array_filter :: "('a \<Rightarrow> error + bool) \<Rightarrow> 'a list \<Rightarrow> error + 'a list" where
  "array_filter f [] = Inr []"
| "array_filter f (x # xs) =
     (case f x of
        Inl e \<Rightarrow> Inl e
      | Inr keep \<Rightarrow>
          (case array_filter f xs of
             Inl e \<Rightarrow> Inl e
           | Inr ys \<Rightarrow> Inr (if keep then x # ys else ys)))"

text \<open>The assignment \<open>object.key = v\<close> on the members of the object.\<close>

fun set_field :: "string \<Rightarrow> 'v \<Rightarrow> (string \<times> 'v) list \<Rightarrow> (string \<times> 'v) list" where
  "set_field key v [] = [(key, v)]"
| "set_field key v (f # fs) = (if fst f = key then (key, v) # fs else f # set_field key v fs)"

text \<open>
  \<open>filterForICN\<close> on the store: the copy, the guard, the filter into a new array, the
  assignment to the member of the copy. The result is what the function returns or
  throws, with the store it leaves. Only an array has \<open>filter\<close>.
\<close>

definition filterForICN_store ::
  "(string \<Rightarrow> string) \<Rightarrow> string list \<Rightarrow> heap \<Rightarrow> jsval
     \<Rightarrow> ((error + jsval) \<times> heap) option" where
  "filterForICN_store toLowerCase keywords h data =
     (case JSON_stringify h data of
        None \<Rightarrow> None
      | Some (Inl e) \<Rightarrow> Some (Inl e, h)
      | Some (Inr serialized) \<Rightarrow>
          Some
            (case JSON_parse serialized h of (filteredData, h1) \<Rightarrow>
               (case get_prop h1 filteredData ''components'' of
                  Inl e \<Rightarrow> (Inl e, h1)
                | Inr components \<Rightarrow>
                    if truthy_val components
                    then
                      (case (filteredData, components) of
                         (Ref a, Some (Ref c)) \<Rightarrow>
                           (case (deref h1 a, deref h1 c) of
                              (Some (Object fs), Some (Array xs)) \<Rightarrow>
                                (case array_filter (icn_callback toLowerCase keywords h1) xs of
                                   Inl e \<Rightarrow> (Inl e, h1)
                                 | Inr kept \<Rightarrow>
                                     (Inr filteredData,
                                      (h1 @ [Array kept])
                                        [a := Object (set_field ''components'' (Ref (length h1)) fs)]))
                            | _ \<Rightarrow> (Inl TypeError, h1))
                       | _ \<Rightarrow> (Inl TypeError, h1))
                    else (Inr filteredData, h1))))"

text \<open>
  The addresses an object refers to, and the separation of the objects allocated from
  address \<open>n\<close> on: none of them refers to an object below \<open>n\<close>.
\<close>

fun val_refs :: "jsval \<Rightarrow> nat set" where
  "val_refs (Ref a) = {a}"
| "val_refs v = {}"

fun obj_refs :: "obj \<Rightarrow> nat set" where
  "obj_refs (Object fs) = (\<Union>f \<in> set fs. val_refs (snd f))"
| "obj_refs (Array xs) = (\<Union>x \<in> set xs. val_refs x)"

definition apart :: "nat \<Rightarrow> heap \<Rightarrow> bool" where
  "apart n h = (\<forall>ob \<in> set (drop n h). \<forall>b \<in> obj_refs ob. n \<le> b)"

text \<open>
  Reading the store: the value \<open>v\<close> represents the text \<open>j\<close> when the objects it
  reaches have the members and the elements of \<open>j\<close>, in order.
\<close>

fun repr :: "heap \<Rightarrow> jsval \<Rightarrow> json \<Rightarrow> bool"
  and repr_elements :: "heap \<Rightarrow> jsval list \<Rightarrow> json list \<Rightarrow> bool"
  and repr_members :: "heap \<Rightarrow> (string \<times> jsval) list \<Rightarrow> (string \<times> json) list \<Rightarrow> bool" where
  "repr h v JNull = (v = Null)"
| "repr h v (JBool b) = (v = Bool b)"
| "repr h v (JNum i) = (v = Num i)"
| "repr h v (JStr s) = (v = Str s)"
| "repr h v (JArray js) =
     (case v of
        Ref a \<Rightarrow> (case deref h a of Some (Array xs) \<Rightarrow> repr_elements h xs js | _ \<Rightarrow> False)
      | _ \<Rightarrow> False)"
| "repr h v (JObject ms) =
     (case v of
        Ref a \<Rightarrow> (case deref h a of Some (Object fs) \<Rightarrow> repr_members h fs ms | _ \<Rightarrow> False)
      | _ \<Rightarrow> False)"
| "repr_elements h xs [] = (xs = [])"
| "repr_elements h xs (j # js) =
     (case xs of [] \<Rightarrow> False | x # xs' \<Rightarrow> repr h x j \<and> repr_elements h xs' js)"
| "repr_members h fs [] = (fs = [])"
| "repr_members h fs (m # ms) =
     (case fs of
        [] \<Rightarrow> False
      | f # fs' \<Rightarrow> fst f = fst m \<and> repr h (snd f) (snd m) \<and> repr_members h fs' ms)"

text \<open>The nesting depth of a text.\<close>

fun depth :: "json \<Rightarrow> nat"
  and depth_elements :: "json list \<Rightarrow> nat"
  and depth_members :: "(string \<times> json) list \<Rightarrow> nat" where
  "depth JNull = 0"
| "depth (JBool b) = 0"
| "depth (JNum i) = 0"
| "depth (JStr s) = 0"
| "depth (JArray js) = Suc (depth_elements js)"
| "depth (JObject ms) = Suc (depth_members ms)"
| "depth_elements [] = 0"
| "depth_elements (j # js) = max (depth j) (depth_elements js)"
| "depth_members [] = 0"
| "depth_members (m # ms) = max (depth (snd m)) (depth_members ms)"

text \<open>The documents of the data model as JSON text.\<close>

definition enc_member :: "string \<Rightarrow> ('a \<Rightarrow> json) \<Rightarrow> 'a option \<Rightarrow> (string \<times> json) list" where
  "enc_member key enc v = (case v of None \<Rightarrow> [] | Some x \<Rightarrow> [(key, enc x)])"

definition enc_component :: "component \<Rightarrow> json" where
  "enc_component c =
     JObject ([(''name'', JStr (c_name c))]
              @ enc_member ''description'' JStr (c_description c)
              @ enc_member ''status'' JStr (c_status c))"

definition enc_overall :: "overall \<Rightarrow> json" where
  "enc_overall st = JObject (enc_member ''description'' JStr (o_description st))"

definition enc_update :: "incident_update \<Rightarrow> json" where
  "enc_update u =
     JObject (enc_member ''status'' JStr (u_status u)
              @ [(''body'', JStr (u_body u)), (''created_at'', JStr (u_created_at u))])"

definition enc_incident :: "incident \<Rightarrow> json" where
  "enc_incident i =
     JObject ([(''name'', JStr (i_name i))]
              @ enc_member ''status'' JStr (i_status i)
              @ enc_member ''impact'' JStr (i_impact i)
              @ [(''monitoring'', JBool (i_monitoring i))]
              @ enc_member ''incident_updates'' (\<lambda>us. JArray (map enc_update us))
                  (i_incident_updates i)
              @ enc_member ''components'' (\<lambda>cs. JArray (map enc_component cs)) (i_components i))"

definition enc_document :: "document \<Rightarrow> json" where
  "enc_document d =
     JObject (enc_member ''status'' enc_overall (d_status d)
              @ enc_member ''components'' (\<lambda>cs. JArray (map enc_component cs)) (d_components d)
              @ enc_member ''incidents'' (\<lambda>is. JArray (map enc_incident is)) (d_incidents d))"

text \<open>A status token in which every underscore is a space.\<close>

definition spaced :: "string \<Rightarrow> string" where
  "spaced s = map (\<lambda>c. if c = CHR ''_'' then CHR '' '' else c) s"

section \<open>Example inputs\<close>

text \<open>
  The scenario of the specification: a listing with a Tokyo cache in major outage and a
  Seoul node with degraded performance.
\<close>

definition tokyo_cache :: component where
  "tokyo_cache = \<lparr>c_name = ''Tokyo Cache'', c_description = None, c_status = Some ''major_outage''\<rparr>"

definition seoul_node :: component where
  "seoul_node =
     \<lparr>c_name = ''Seoul Node'', c_description = None, c_status = Some ''degraded_performance''\<rparr>"

definition scenario_listing :: document where
  "scenario_listing =
     \<lparr>d_status = None, d_components = Some [tokyo_cache, seoul_node], d_incidents = None\<rparr>"

text \<open>The round trip of the specification: a status document and a listing of one component.\<close>

definition all_operational :: document where
  "all_operational =
     \<lparr>d_status = Some \<lparr>o_description = Some ''All Systems Operational''\<rparr>,
      d_components = None, d_incidents = None\<rparr>"

definition icn_load_balancer :: component where
  "icn_load_balancer =
     \<lparr>c_name = ''ICN Load Balancer'', c_description = None, c_status = Some ''operational''\<rparr>"

definition balancer_listing :: document where
  "balancer_listing =
     \<lparr>d_status = None, d_components = Some [icn_load_balancer], d_incidents = None\<rparr>"

text \<open>A component without a status, and an incident without one, with five updates.\<close>

definition statusless :: component where
  "statusless = \<lparr>c_name = ''Seoul Router'', c_description = None, c_status = None\<rparr>"

definition statusless_listing :: document where
  "statusless_listing =
     \<lparr>d_status = None, d_components = Some [seoul_node, statusless], d_incidents = None\<rparr>"

definition an_update :: "string \<Rightarrow> incident_update" where
  "an_update n =
     \<lparr>u_status = Some ''investigating'', u_body = ''Report '' @ n,
      u_created_at = ''2024-05-0'' @ n\<rparr>"

definition five_updates :: "incident_update list" where
  "five_updates = [an_update ''5'', an_update ''4'', an_update ''3'', an_update ''2'', an_update ''1'']"

definition seoul_incident :: incident where
  "seoul_incident =
     \<lparr>i_name = ''Seoul routing'', i_status = None, i_impact = Some ''minor'',
      i_monitoring = False, i_incident_updates = Some five_updates,
      i_components = Some [seoul_node]\<rparr>"

definition incidents_listing :: document where
  "incidents_listing =
     \<lparr>d_status = None, d_components = None, d_incidents = Some [seoul_incident]\<rparr>"

text \<open>A component whose status has two underscores.\<close>

definition twice_underscored :: component where
  "twice_underscored =
     \<lparr>c_name = ''Seoul Node'', c_description = None,
      c_status = Some ''under_scheduled_maintenance''\<rparr>"

text \<open>
  The scenario as a store: the two components, their array, the overall status and the
  document, which is the object at address 4.
\<close>

definition scenario_document :: document where
  "scenario_document =
     \<lparr>d_status = Some \<lparr>o_description = Some ''All Systems Operational''\<rparr>,
      d_components = Some [tokyo_cache, seoul_node], d_incidents = None\<rparr>"

definition scenario_store :: heap where
  "scenario_store =
     [Object [(''name'', Str ''Tokyo Cache''), (''status'', Str ''major_outage'')],
      Object [(''name'', Str ''Seoul Node''), (''status'', Str ''degraded_performance'')],
      Array [Ref 0, Ref 1],
      Object [(''description'', Str ''All Systems Operational'')],
      Object [(''status'', Ref 3), (''components'', Ref 2)]]"

definition filtered_store :: heap where
  "filtered_store =
     scenario_store @
     [Object [(''description'', Str ''All Systems Operational'')],
      Object [(''name'', Str ''Tokyo Cache''), (''status'', Str ''major_outage'')],
      Object [(''name'', Str ''Seoul Node''), (''status'', Str ''degraded_performance'')],
      Array [Ref 6, Ref 7],
      Object [(''status'', Ref 5), (''components'', Ref 10)],
      Array [Ref 7]]"

text \<open>Responses: a success carrying a document, and a 503.\<close>

definition ok_response :: "'j \<Rightarrow> 'j response" where
  "ok_response j = \<lparr>r_status = 200, r_statusText = ''OK'', r_json = Some j\<rparr>"

definition unavailable :: "document response" where
  "unavailable = \<lparr>r_status = 503, r_statusText = ''Service Unavailable'', r_json = None\<rparr>"

definition empty_document :: document where
  "empty_document = \<lparr>d_status = None, d_components = None, d_incidents = None\<rparr>"

definition seoul_only :: document where
  "seoul_only =
     \<lparr>d_status = Some \<lparr>o_description = Some ''All Systems Operational''\<rparr>,
      d_components = Some [seoul_node], d_incidents = None\<rparr>"

text \<open>An upstream that answers every request with the given documents, and a webhook that accepts.\<close>

definition answering :: "document \<Rightarrow> document \<Rightarrow> document \<Rightarrow> unit upstream" where
  "answering listing status_doc incidents_doc =
     \<lparr>up_components = Inr (ok_response listing), up_status = Inr (ok_response status_doc),
      up_incidents = Inr (ok_response incidents_doc), up_webhook = Inr (ok_response ())\<rparr>"

definition scenario_upstream :: "unit upstream" where
  "scenario_upstream = answering scenario_listing all_operational empty_document"

definition a_host :: host where
  "a_host = \<lparr>h_now = ''2024-05-01T00:00:00.000Z'', h_toLocaleString = (\<lambda>t. t),
               h_toLowerCase = ascii_lower\<rparr>"

definition no_webhook :: env where
  "no_webhook = \<lparr>SLACK_WEBHOOK_URL = None\<rparr>"

definition a_webhook :: env where
  "a_webhook = \<lparr>SLACK_WEBHOOK_URL = Some ''https://hooks.slack.com/services/T/B/X''\<rparr>"

section \<open>Strings: search is the substring relation\<close>

lemma includes_sublist: "str_includes s k \<longleftrightarrow> sublist k s"
proof (induction s)
  case Nil
  show ?case by simp
next
  case (Cons c s)
  have "take (length k) (c # s) = k \<longleftrightarrow> prefix k (c # s)"
    by (auto simp: prefix_def dest: sym) (metis append_eq_conv_conj)
  with Cons show ?case
    by (simp add: sublist_Cons_right)
qed

section \<open>Runs: what the catch blocks keep\<close>

lemma rethrow_Inr: "rethrow what run = (Inr v, evs) \<longleftrightarrow> run = (Inr v, evs)"
  by (cases run) (auto simp: rethrow_def split: sum.splits)

lemma rethrow_Inl:
  "rethrow what run = (Inl e, evs) \<longleftrightarrow>
     (\<exists>evs'. run = (Inl e, evs') \<and> evs = evs' @ [ConsoleError what (Some e)])"
  by (cases run) (auto simp: rethrow_def split: sum.splits)

section \<open>The keyword filter: what it keeps\<close>

lemma icn_match_sublist:
  "icn_match lower K =
     (\<lambda>c. \<exists>k\<in>set K.
        sublist k (lower (c_name c)) \<or>
        sublist k (lower (case c_description c of None \<Rightarrow> [] | Some x \<Rightarrow> x)))"
  by (rule ext) (simp add: icn_match_def includes_sublist list_ex_iff Let_def)

lemma filterForICN_components:
  "d_components (filterForICN lower K d) = map_option (filter (icn_match lower K)) (d_components d)"
  by (simp add: filterForICN_def split: option.splits)

lemma fetch_try_present:
  assumes "fetchICNComponentsStatus_try lower K up = (Inr v, evs)"
  shows "d_components v \<noteq> None"
  using assms
  by (auto simp: fetchICNComponentsStatus_try_def filterForICN_components combinedData_def
           split: sum.splits if_splits option.splits)

lemma fetch_present:
  assumes "fetchICNComponentsStatus h up = (Inr v, evs)"
  shows "d_components v \<noteq> None"
  using assms fetch_try_present
  by (auto simp: fetchICNComponentsStatus_def rethrow_Inr)

text \<open>
  C1. For every components list \<open>cs\<close> and every keyword list \<open>K\<close>, the filter returns the
  document with its components replaced by exactly those of \<open>cs\<close>, in their order, whose
  lower-cased name or lower-cased description (a missing description counting as the
  empty string) has a keyword of \<open>K\<close> as a substring; with no keyword the list is empty.
  The lowering \<open>lower\<close> is the engine's \<open>toLowerCase\<close>, whatever it does.
\<close>

theorem filterForICN_exact:
  assumes "d_components d = Some cs"
  shows "filterForICN lower K d =
           d\<lparr>d_components := Some (filter (\<lambda>c. \<exists>k\<in>set K.
                 sublist k (lower (c_name c)) \<or>
                 sublist k (lower (case c_description c of None \<Rightarrow> [] | Some x \<Rightarrow> x))) cs)\<rparr>
         \<and> d_components (filterForICN lower [] d) = Some []"
  using assms
  by (simp add: filterForICN_def icn_match_sublist)

theorem filterForICN_exact_witness:
  "d_components scenario_listing = Some [tokyo_cache, seoul_node]
   \<and> filterForICN ascii_lower [''seoul''] scenario_listing
     = \<lparr>d_status = None, d_components = Some [seoul_node], d_incidents = None\<rparr>
   \<and> filter (\<lambda>c. \<exists>k\<in>set [''seoul''].
                 sublist k (ascii_lower (c_name c)) \<or>
                 sublist k (ascii_lower (case c_description c of None \<Rightarrow> [] | Some x \<Rightarrow> x)))
        [tokyo_cache, seoul_node]
     = [seoul_node]
   \<and> d_components (filterForICN ascii_lower [] scenario_listing) = Some []"
proof -
  have run: "filterForICN ascii_lower [''seoul''] scenario_listing
     = \<lparr>d_status = None, d_components = Some [seoul_node], d_incidents = None\<rparr>"
    by code_simp
  have "d_components scenario_listing = Some [tokyo_cache, seoul_node]"
    by (simp add: scenario_listing_def)
  from filterForICN_exact [OF this, where lower = ascii_lower and K = "[''seoul'']"] run this
  show ?thesis
    by (simp add: scenario_listing_def)
qed

text \<open>
  A name that only the Unicode mapping lowers to a keyword: a component whose name the
  engine lowers to "korea gateway", as it does the name written with the Kelvin sign, is
  kept under the configured keywords, whatever the bytes of the name are.
\<close>

lemma lowered_name_is_kept:
  assumes "lower (c_name c) = ''korea gateway''"
  shows "icn_match lower ICN_KEYWORDS c"
  using assms by (simp add: icn_match_def ICN_KEYWORDS_def Let_def)

section \<open>The issue check\<close>

text \<open>
  C2. For every components list, \<open>hasIssues\<close> is true exactly when some component has a
  status other than the string \<open>operational\<close> (a missing status and an unknown token
  count as such), and it is false for the empty list. In a run of \<open>checkICNComponents\<close>
  that returns, the components list is always present and \<open>hasIssues\<close> is this test on
  the components of the returned data.
\<close>

theorem hasIssues_iff:
  "(d_components d = Some cs \<longrightarrow>
      hasIssues d = Some (\<exists>c\<in>set cs. c_status c \<noteq> Some ''operational''))
   \<and> (d_components d = Some [] \<longrightarrow> hasIssues d = Some False)
   \<and> (checkICNComponents h up env = (Inr res, evs) \<longrightarrow>
        (\<exists>cs'. d_components (cr_data res) = Some cs'
           \<and> cr_hasIssues res = Some (\<exists>c\<in>set cs'. c_status c \<noteq> Some ''operational'')))"
proof (intro conjI impI)
  assume "d_components d = Some cs"
  then show "hasIssues d = Some (\<exists>c\<in>set cs. c_status c \<noteq> Some ''operational'')"
    by (simp add: hasIssues_def list_ex_iff)
next
  assume "d_components d = Some []"
  then show "hasIssues d = Some False"
    by (simp add: hasIssues_def)
next
  assume run: "checkICNComponents h up env = (Inr res, evs)"
  then have body: "checkICNComponents_try False h up env = (Inr res, evs)"
    by (simp add: checkICNComponents_def rethrow_Inr)
  obtain r evs0 where f: "fetchICNComponentsStatus h up = (r, evs0)"
    by (cases "fetchICNComponentsStatus h up")
  from body f obtain v where v: "r = Inr v"
    by (cases r) (auto simp: checkICNComponents_try_def)
  from body f v have res: "cr_data res = v" "cr_hasIssues res = hasIssues v"
    by (auto simp: checkICNComponents_try_def Let_def split: if_splits prod.splits sum.splits)
  from fetch_present f v obtain cs' where "d_components v = Some cs'"
    by blast
  with res show "\<exists>cs'. d_components (cr_data res) = Some cs'
           \<and> cr_hasIssues res = Some (\<exists>c\<in>set cs'. c_status c \<noteq> Some ''operational'')"
    by (simp add: hasIssues_def list_ex_iff)
qed

theorem hasIssues_iff_witness:
  "d_components seoul_only = Some [seoul_node]
   \<and> hasIssues seoul_only = Some True
   \<and> c_status seoul_node \<noteq> Some ''operational''
   \<and> hasIssues (seoul_only\<lparr>d_components := Some []\<rparr>) = Some False
   \<and> checkICNComponents a_host (answering scenario_listing all_operational empty_document) no_webhook
       = (Inr \<lparr>cr_status = ''success'', cr_message = ''ICN components status checked'',
                cr_hasIssues = Some True, cr_data = seoul_only\<rparr>,
          [Fetch ''https://www.cloudflarestatus.com/api/v2/status.json'',
           Fetch ''https://www.cloudflarestatus.com/api/v2/status.json'',
           ConsoleError ''Slack webhook URL not configured'' None])"
proof -
  let ?res = "\<lparr>cr_status = ''success'', cr_message = ''ICN components status checked'',
                cr_hasIssues = Some True, cr_data = seoul_only\<rparr>"
  let ?evs = "[Fetch ''https://www.cloudflarestatus.com/api/v2/status.json'',
           Fetch ''https://www.cloudflarestatus.com/api/v2/status.json'',
           ConsoleError ''Slack webhook URL not configured'' None]"
  have run: "checkICNComponents a_host (answering scenario_listing all_operational empty_document)
               no_webhook = (Inr ?res, ?evs)"
    by code_simp
  have present: "d_components seoul_only = Some [seoul_node]"
    by (simp add: seoul_only_def)
  have status: "c_status seoul_node \<noteq> Some ''operational''"
    by (simp add: seoul_node_def)
  have empty: "d_components (seoul_only\<lparr>d_components := Some []\<rparr>) = Some []"
    by simp
  from hasIssues_iff [of seoul_only "[seoul_node]" a_host
        "answering scenario_listing all_operational empty_document" no_webhook ?res ?evs]
       hasIssues_iff [of "seoul_only\<lparr>d_components := Some []\<rparr>" "[]" a_host
        "answering scenario_listing all_operational empty_document" no_webhook ?res ?evs]
       run present status empty
  show ?thesis
    by simp
qed

section \<open>Upstream failures\<close>

text \<open>The digits of \<open>show_nat\<close> are the decimal digits of the number.\<close>

lemma show_nat_decimal:
  "foldl (\<lambda>a c. 10 * a + (of_char c - 48)) 0 (show_nat n) = n"
proof (induction n rule: show_nat.induct)
  case (1 n)
  show ?case
  proof (cases "n < 10")
    case True
    then show ?thesis
      by (subst show_nat.simps) (simp add: digit_char_def)
  next
    case False
    with 1 have "foldl (\<lambda>a c. 10 * a + (of_char c - 48)) 0 (show_nat (n div 10)) = n div 10"
      by simp
    moreover have "(of_char (digit_char (n mod 10)) :: nat) = 48 + n mod 10"
      by (simp add: digit_char_def)
    ultimately show ?thesis using False
      by (subst show_nat.simps) simp
  qed
qed

lemma components_fetch_refused:
  assumes "up_components up = Inr r" "\<not> r_ok r"
  shows "fetchICNComponentsStatus h up =
           (Inl (http_error ''Failed to fetch components data: '' r),
            [Fetch ENDPOINTS_components,
             ConsoleError ''Error fetching ICN components status:''
               (Some (http_error ''Failed to fetch components data: '' r))])"
  using assms
  by (simp add: fetchICNComponentsStatus_def fetchICNComponentsStatus_try_def rethrow_def)

lemma status_fetch_refused:
  assumes "up_components up = Inr r1" "r_ok r1" "up_status up = Inr r" "\<not> r_ok r"
  shows "fetchICNComponentsStatus h up =
           (Inl (http_error ''Failed to fetch status data: '' r),
            [Fetch ENDPOINTS_components, Fetch (API_BASE_URL @ ''/status.json''),
             ConsoleError ''Error fetching ICN components status:''
               (Some (http_error ''Failed to fetch status data: '' r))])"
  using assms
  by (simp add: fetchICNComponentsStatus_def fetchICNComponentsStatus_try_def rethrow_def)

lemma incidents_fetch_refused:
  assumes "up_incidents up = Inr r" "\<not> r_ok r"
  shows "fetchUnresolvedIncidents up =
           (Inl (http_error ''Failed to fetch incidents data: '' r),
            [Fetch ENDPOINTS_incidents,
             ConsoleError ''Error fetching unresolved incidents:''
               (Some (http_error ''Failed to fetch incidents data: '' r))])"
  using assms
  by (simp add: fetchUnresolvedIncidents_def fetchUnresolvedIncidents_try_def rethrow_def)

lemma check_components_fetch_error:
  assumes "fetchICNComponentsStatus h up = (Inl e, evs)"
  shows "rethrow what (checkICNComponents_try always h up env) =
           (Inl e, evs @ [ConsoleError what (Some e)])"
  using assms by (simp add: checkICNComponents_try_def rethrow_def)

lemma check_incidents_fetch_error:
  assumes "fetchUnresolvedIncidents up = (Inl e, evs)"
  shows "checkUnresolvedIncidents h up env =
           (Inl e, evs @ [ConsoleError ''Error checking unresolved incidents:'' (Some e)])"
  using assms
  by (simp add: checkUnresolvedIncidents_def checkUnresolvedIncidents_try_def rethrow_def)

text \<open>
  C3. When the response to the components fetch has a status outside 200..299, both
  forms of the components check throw the error "Failed to fetch components data:" with
  the status code and the status text, and no POST to the webhook is among the effects;
  when that response is a success and the response to the status fetch is not, they throw
  "Failed to fetch status data:" with its code and text; when the response to the
  incidents fetch is not a success, the incidents check throws "Failed to fetch incidents
  data:" with its code and text. The run is the error alone: no data is returned.
\<close>

theorem upstream_failure_fails_check:
  "(up_components up = Inr r \<and> \<not> r_ok r \<longrightarrow>
      (\<forall>run \<in> {checkICNComponents h up env, checkICNComponents_always h up env}.
         fst run = Inl (Error (''Failed to fetch components data: '' @ show_nat (r_status r)
                               @ '' '' @ r_statusText r))
         \<and> \<not> list_ex is_post (snd run)))
   \<and> (up_components up = Inr r1 \<and> r_ok r1 \<and> up_status up = Inr r \<and> \<not> r_ok r \<longrightarrow>
      (\<forall>run \<in> {checkICNComponents h up env, checkICNComponents_always h up env}.
         fst run = Inl (Error (''Failed to fetch status data: '' @ show_nat (r_status r)
                               @ '' '' @ r_statusText r))
         \<and> \<not> list_ex is_post (snd run)))
   \<and> (up_incidents up = Inr r \<and> \<not> r_ok r \<longrightarrow>
         fst (checkUnresolvedIncidents h up env)
           = Inl (Error (''Failed to fetch incidents data: '' @ show_nat (r_status r)
                         @ '' '' @ r_statusText r))
         \<and> \<not> list_ex is_post (snd (checkUnresolvedIncidents h up env)))"
proof -
  have first:
    "\<forall>run \<in> {checkICNComponents h up env, checkICNComponents_always h up env}.
       fst run = Inl (Error (''Failed to fetch components data: '' @ show_nat (r_status r)
                             @ '' '' @ r_statusText r))
       \<and> \<not> list_ex is_post (snd run)"
    if "up_components up = Inr r \<and> \<not> r_ok r"
  proof -
    from that have "fetchICNComponentsStatus h up =
           (Inl (http_error ''Failed to fetch components data: '' r),
            [Fetch ENDPOINTS_components,
             ConsoleError ''Error fetching ICN components status:''
               (Some (http_error ''Failed to fetch components data: '' r))])"
      using components_fetch_refused by blast
    from check_components_fetch_error [OF this] show ?thesis
      by (simp add: checkICNComponents_def checkICNComponents_always_def http_error_def)
  qed
  have second:
    "\<forall>run \<in> {checkICNComponents h up env, checkICNComponents_always h up env}.
       fst run = Inl (Error (''Failed to fetch status data: '' @ show_nat (r_status r)
                             @ '' '' @ r_statusText r))
       \<and> \<not> list_ex is_post (snd run)"
    if "up_components up = Inr r1 \<and> r_ok r1 \<and> up_status up = Inr r \<and> \<not> r_ok r"
  proof -
    from that have "fetchICNComponentsStatus h up =
           (Inl (http_error ''Failed to fetch status data: '' r),
            [Fetch ENDPOINTS_components, Fetch (API_BASE_URL @ ''/status.json''),
             ConsoleError ''Error fetching ICN components status:''
               (Some (http_error ''Failed to fetch status data: '' r))])"
      using status_fetch_refused by blast
    from check_components_fetch_error [OF this] show ?thesis
      by (simp add: checkICNComponents_def checkICNComponents_always_def http_error_def)
  qed
  have third:
    "fst (checkUnresolvedIncidents h up env)
       = Inl (Error (''Failed to fetch incidents data: '' @ show_nat (r_status r)
                     @ '' '' @ r_statusText r))
     \<and> \<not> list_ex is_post (snd (checkUnresolvedIncidents h up env))"
    if "up_incidents up = Inr r \<and> \<not> r_ok r"
  proof -
    from that have "fetchUnresolvedIncidents up =
           (Inl (http_error ''Failed to fetch incidents data: '' r),
            [Fetch ENDPOINTS_incidents,
             ConsoleError ''Error fetching unresolved incidents:''
               (Some (http_error ''Failed to fetch incidents data: '' r))])"
      using incidents_fetch_refused by blast
    from check_incidents_fetch_error [OF this] show ?thesis
      by (simp add: http_error_def)
  qed
  from first second third show ?thesis
    by blast
qed

theorem upstream_failure_fails_check_witness:
  "\<not> r_ok unavailable
   \<and> r_ok (ok_response scenario_listing)
   \<and> fst (checkICNComponents a_host (scenario_upstream\<lparr>up_components := Inr unavailable\<rparr>) a_webhook)
       = Inl (Error ''Failed to fetch components data: 503 Service Unavailable'')
   \<and> \<not> list_ex is_post
         (snd (checkICNComponents a_host (scenario_upstream\<lparr>up_components := Inr unavailable\<rparr>)
                 a_webhook))
   \<and> fst (checkICNComponents_always a_host (scenario_upstream\<lparr>up_status := Inr unavailable\<rparr>)
            a_webhook)
       = Inl (Error ''Failed to fetch status data: 503 Service Unavailable'')
   \<and> \<not> list_ex is_post
         (snd (checkICNComponents_always a_host (scenario_upstream\<lparr>up_status := Inr unavailable\<rparr>)
                 a_webhook))
   \<and> fst (checkUnresolvedIncidents a_host (scenario_upstream\<lparr>up_incidents := Inr unavailable\<rparr>)
            a_webhook)
       = Inl (Error ''Failed to fetch incidents data: 503 Service Unavailable'')
   \<and> \<not> list_ex is_post
         (snd (checkUnresolvedIncidents a_host (scenario_upstream\<lparr>up_incidents := Inr unavailable\<rparr>)
                 a_webhook))"
proof -
  have refused: "\<not> r_ok unavailable"
    by (simp add: r_ok_def unavailable_def)
  have accepted: "r_ok (ok_response scenario_listing)"
    by (simp add: r_ok_def ok_response_def)
  have digits: "show_nat (r_status unavailable) = ''503''"
    by code_simp
  have phrase: "r_statusText unavailable = ''Service Unavailable''"
    by (simp add: unavailable_def)
  have listing: "up_components (scenario_upstream\<lparr>up_status := Inr unavailable\<rparr>)
                   = Inr (ok_response scenario_listing)"
    by (simp add: scenario_upstream_def answering_def)
  from upstream_failure_fails_check
         [of "scenario_upstream\<lparr>up_components := Inr unavailable\<rparr>" unavailable a_host a_webhook]
       upstream_failure_fails_check
         [of "scenario_upstream\<lparr>up_status := Inr unavailable\<rparr>" unavailable a_host a_webhook
             "ok_response scenario_listing"]
       upstream_failure_fails_check
         [of "scenario_upstream\<lparr>up_incidents := Inr unavailable\<rparr>" unavailable a_host a_webhook]
       refused accepted digits phrase listing
  show ?thesis
    by simp
qed

section \<open>The merge of the two documents\<close>

text \<open>
  C6. The merged document has the overall status, and every other key, of the status
  document, and the components of the listing (the empty list when the listing has none),
  whatever components the status document has itself. Merging the status document "All
  Systems Operational" with the listing of the one component "ICN Load Balancer" and
  filtering on the keyword \<open>icn\<close> gives the document with that description and exactly
  that component; so does the whole client on these two answers. (The engine lowers the
  name to "icn load balancer"; nothing else about its case mapping is used.)
\<close>

theorem combinedData_merge:
  "d_status (combinedData sd cd) = d_status sd
   \<and> d_incidents (combinedData sd cd) = d_incidents sd
   \<and> document.more (combinedData sd cd) = document.more sd
   \<and> d_components (combinedData sd cd) = Some (case d_components cd of None \<Rightarrow> [] | Some cs \<Rightarrow> cs)
   \<and> (lower ''ICN Load Balancer'' = ''icn load balancer'' \<longrightarrow>
        filterForICN lower [''icn''] (combinedData all_operational balancer_listing)
          = \<lparr>d_status = Some \<lparr>o_description = Some ''All Systems Operational''\<rparr>,
             d_components = Some [icn_load_balancer], d_incidents = None\<rparr>)
   \<and> (h_toLowerCase h ''ICN Load Balancer'' = ''icn load balancer'' \<longrightarrow>
        fst (fetchICNComponentsStatus h (answering balancer_listing all_operational empty_document))
          = Inr \<lparr>d_status = Some \<lparr>o_description = Some ''All Systems Operational''\<rparr>,
                 d_components = Some [icn_load_balancer], d_incidents = None\<rparr>)"
proof -
  have kept: "icn_match f K icn_load_balancer"
    if "f ''ICN Load Balancer'' = ''icn load balancer''" "''icn'' \<in> set K" for f K
  proof -
    have "str_includes ''icn load balancer'' ''icn''"
      by simp
    with that(1) have "str_includes (f (c_name icn_load_balancer)) ''icn''"
      by (simp add: icn_load_balancer_def)
    with that(2) show ?thesis
      unfolding icn_match_def Let_def list_ex_iff by (intro bexI [of _ "''icn''"] disjI1)
  qed
  have merged: "filterForICN f K (combinedData all_operational balancer_listing)
          = \<lparr>d_status = Some \<lparr>o_description = Some ''All Systems Operational''\<rparr>,
             d_components = Some [icn_load_balancer], d_incidents = None\<rparr>"
    if "f ''ICN Load Balancer'' = ''icn load balancer''" "''icn'' \<in> set K" for f K
    using kept [of f K] that
    by (simp add: filterForICN_def combinedData_def all_operational_def balancer_listing_def)
  have one: "filterForICN lower [''icn''] (combinedData all_operational balancer_listing)
          = \<lparr>d_status = Some \<lparr>o_description = Some ''All Systems Operational''\<rparr>,
             d_components = Some [icn_load_balancer], d_incidents = None\<rparr>"
    if "lower ''ICN Load Balancer'' = ''icn load balancer''"
    using merged [of lower "[''icn'']"] that by simp
  have whole: "fst (fetchICNComponentsStatus h (answering balancer_listing all_operational empty_document))
          = Inr \<lparr>d_status = Some \<lparr>o_description = Some ''All Systems Operational''\<rparr>,
                 d_components = Some [icn_load_balancer], d_incidents = None\<rparr>"
    if "h_toLowerCase h ''ICN Load Balancer'' = ''icn load balancer''"
    using merged [of "h_toLowerCase h" ICN_KEYWORDS] that
    by (simp add: fetchICNComponentsStatus_def fetchICNComponentsStatus_try_def rethrow_def
          answering_def ok_response_def r_ok_def ICN_KEYWORDS_def)
  from one whole show ?thesis
    by (simp add: combinedData_def)
qed

theorem combinedData_merge_witness:
  "d_components seoul_only = Some [seoul_node]
   \<and> combinedData seoul_only balancer_listing
       = \<lparr>d_status = Some \<lparr>o_description = Some ''All Systems Operational''\<rparr>,
          d_components = Some [icn_load_balancer], d_incidents = None\<rparr>
   \<and> ascii_lower ''ICN Load Balancer'' = ''icn load balancer''
   \<and> filterForICN ascii_lower [''icn''] (combinedData all_operational balancer_listing)
       = \<lparr>d_status = Some \<lparr>o_description = Some ''All Systems Operational''\<rparr>,
          d_components = Some [icn_load_balancer], d_incidents = None\<rparr>
   \<and> fst (fetchICNComponentsStatus a_host (answering balancer_listing all_operational empty_document))
       = Inr \<lparr>d_status = Some \<lparr>o_description = Some ''All Systems Operational''\<rparr>,
              d_components = Some [icn_load_balancer], d_incidents = None\<rparr>"
proof -
  have listed: "d_components balancer_listing = Some [icn_load_balancer]"
    by (simp add: balancer_listing_def)
  have lowered: "ascii_lower ''ICN Load Balancer'' = ''icn load balancer''"
    by code_simp
  then have hosted: "h_toLowerCase a_host ''ICN Load Balancer'' = ''icn load balancer''"
    by (simp add: a_host_def)
  from combinedData_merge [of seoul_only balancer_listing ascii_lower a_host] listed lowered hosted
  show ?thesis
    by (simp add: seoul_only_def)
qed

section \<open>Absent and empty components\<close>

text \<open>
  The other branch of the guard: a document without the components key is returned as it
  is. The filter is private to the client and called in one place, on the merged document,
  which has the key (\<open>fetch_try_present\<close>).
\<close>

lemma filterForICN_guard:
  assumes "d_components d = None"
  shows "filterForICN lower K d = d"
  using assms by (simp add: filterForICN_def)

text \<open>
  C8. The components of the snapshot come from the listing, and the filter runs on the
  merge. When the components field of the listing is absent or an empty list, the filter
  returns the snapshot with its components present and empty, and nothing is raised: on
  two successful answers the client returns that snapshot. So does the filter on any
  document whose components are the empty list; and every snapshot the client returns
  has its components present.
\<close>

theorem filterForICN_absent_or_empty:
  "(d_components componentsData \<in> {None, Some []} \<longrightarrow>
      filterForICN lower K (combinedData statusData componentsData)
        = statusData\<lparr>d_components := Some []\<rparr>
      \<and> d_components (filterForICN lower K (combinedData statusData componentsData)) = Some [])
   \<and> (d_components d = Some [] \<longrightarrow>
        filterForICN lower K d = d \<and> d_components (filterForICN lower K d) = Some [])
   \<and> (d_components componentsData \<in> {None, Some []}
        \<and> up_components up = Inr componentsResponse \<and> r_ok componentsResponse
        \<and> r_json componentsResponse = Some componentsData
        \<and> up_status up = Inr statusResponse \<and> r_ok statusResponse
        \<and> r_json statusResponse = Some statusData
      \<longrightarrow> fetchICNComponentsStatus h up
            = (Inr (statusData\<lparr>d_components := Some []\<rparr>),
               [Fetch ENDPOINTS_components, Fetch (API_BASE_URL @ ''/status.json'')]))
   \<and> (fetchICNComponentsStatus h up = (Inr v, evs) \<longrightarrow> (\<exists>cs. d_components v = Some cs))"
proof -
  have merged: "filterForICN f ks (combinedData statusData componentsData)
                  = statusData\<lparr>d_components := Some []\<rparr>"
    if "d_components componentsData \<in> {None, Some []}" for f ks
    using that by (auto simp: filterForICN_def combinedData_def)
  have first: "filterForICN lower K (combinedData statusData componentsData)
        = statusData\<lparr>d_components := Some []\<rparr>
      \<and> d_components (filterForICN lower K (combinedData statusData componentsData)) = Some []"
    if "d_components componentsData \<in> {None, Some []}"
    using merged [OF that] by simp
  have second: "filterForICN lower K d = d \<and> d_components (filterForICN lower K d) = Some []"
    if "d_components d = Some []"
    using that by (simp add: filterForICN_def)
  have third: "fetchICNComponentsStatus h up
            = (Inr (statusData\<lparr>d_components := Some []\<rparr>),
               [Fetch ENDPOINTS_components, Fetch (API_BASE_URL @ ''/status.json'')])"
    if "d_components componentsData \<in> {None, Some []}
        \<and> up_components up = Inr componentsResponse \<and> r_ok componentsResponse
        \<and> r_json componentsResponse = Some componentsData
        \<and> up_status up = Inr statusResponse \<and> r_ok statusResponse
        \<and> r_json statusResponse = Some statusData"
  proof -
    from that have "d_components componentsData \<in> {None, Some []}"
      by simp
    from merged [OF this] that show ?thesis
      by (simp add: fetchICNComponentsStatus_def fetchICNComponentsStatus_try_def rethrow_def)
  qed
  have fourth: "\<exists>cs. d_components v = Some cs" if "fetchICNComponentsStatus h up = (Inr v, evs)"
    using fetch_present [OF that] by auto
  from first second third fourth show ?thesis
    by blast
qed

theorem filterForICN_absent_or_empty_witness:
  "d_components empty_document = None
   \<and> filterForICN ascii_lower ICN_KEYWORDS (combinedData all_operational empty_document)
       = all_operational\<lparr>d_components := Some []\<rparr>
   \<and> d_components (filterForICN ascii_lower ICN_KEYWORDS (combinedData all_operational empty_document))
       = Some []
   \<and> filterForICN ascii_lower ICN_KEYWORDS (seoul_only\<lparr>d_components := Some []\<rparr>)
       = seoul_only\<lparr>d_components := Some []\<rparr>
   \<and> r_ok (ok_response empty_document) \<and> r_ok (ok_response all_operational)
   \<and> fetchICNComponentsStatus a_host (answering empty_document all_operational empty_document)
       = (Inr (all_operational\<lparr>d_components := Some []\<rparr>),
          [Fetch ENDPOINTS_components, Fetch (API_BASE_URL @ ''/status.json'')])
   \<and> d_components (all_operational\<lparr>d_components := Some []\<rparr>) = Some []"
proof -
  let ?up = "answering empty_document all_operational empty_document"
  let ?v = "all_operational\<lparr>d_components := Some []\<rparr>"
  let ?evs = "[Fetch ENDPOINTS_components, Fetch (API_BASE_URL @ ''/status.json'')]"
  have listing: "d_components empty_document = None"
    by (simp add: empty_document_def)
  have answers: "up_components ?up = Inr (ok_response empty_document)"
       "r_json (ok_response empty_document) = Some empty_document"
       "up_status ?up = Inr (ok_response all_operational)"
       "r_json (ok_response all_operational) = Some all_operational"
    by (simp_all add: answering_def ok_response_def)
  have oks: "r_ok (ok_response empty_document)" "r_ok (ok_response all_operational)"
    by (simp_all add: r_ok_def ok_response_def)
  have empty: "d_components (seoul_only\<lparr>d_components := Some []\<rparr>) = Some []"
    by simp
  from filterForICN_absent_or_empty
         [where componentsData = empty_document and statusData = all_operational
            and lower = ascii_lower and K = ICN_KEYWORDS
            and d = "seoul_only\<lparr>d_components := Some []\<rparr>" and up = ?up and h = a_host
            and componentsResponse = "ok_response empty_document"
            and statusResponse = "ok_response all_operational" and v = ?v and evs = ?evs]
       listing answers oks empty
  show ?thesis
    by simp
qed

section \<open>Unknown notification types\<close>

text \<open>
  C7, as stated, fails: asked for a notification of the unknown type \<open>heartbeat\<close>, the
  send operation raises nothing. With a webhook configured it returns \<open>false\<close> after
  logging the formatter's error; with none it returns \<open>false\<close> before the formatter is
  reached, and the type is never looked at.
\<close>

theorem send_unknown_type_counterexample:
  "sendSlackNotification a_host scenario_upstream a_webhook seoul_only ''heartbeat''
     = (Inr False,
        [ConsoleError ''Error sending Slack notification:''
           (Some (Error ''Unknown notification type: heartbeat''))])
   \<and> sendSlackNotification a_host scenario_upstream no_webhook seoul_only ''heartbeat''
     = (Inr False, [ConsoleError ''Slack webhook URL not configured'' None])"
  by code_simp

text \<open>
  C7, amended. For every type other than \<open>components\<close> and \<open>incidents\<close>, the formatter
  \<open>formatSlackPayload\<close> raises the error "Unknown notification type:" with the type.
  \<open>sendSlackNotification\<close> does not raise: with a webhook URL configured it catches that
  error, logs it, posts nothing and returns \<open>false\<close>; with no webhook URL it logs that
  the URL is not configured and returns \<open>false\<close>.
\<close>

theorem unknown_type_is_caught:
  assumes "type \<noteq> ''components''" "type \<noteq> ''incidents''"
  shows "formatSlackPayload h d type = Inl (Error (''Unknown notification type: '' @ type))
         \<and> (truthy (SLACK_WEBHOOK_URL env) \<longrightarrow>
              sendSlackNotification h up env d type
                = (Inr False,
                   [ConsoleError ''Error sending Slack notification:''
                      (Some (Error (''Unknown notification type: '' @ type)))]))
         \<and> (\<not> truthy (SLACK_WEBHOOK_URL env) \<longrightarrow>
              sendSlackNotification h up env d type
                = (Inr False, [ConsoleError ''Slack webhook URL not configured'' None]))"
  using assms
  by (simp add: formatSlackPayload_def sendSlackNotification_def sendSlackNotification_try_def)

theorem unknown_type_is_caught_witness:
  "''heartbeat'' \<noteq> ''components'' \<and> ''heartbeat'' \<noteq> ''incidents''
   \<and> truthy (SLACK_WEBHOOK_URL a_webhook) \<and> \<not> truthy (SLACK_WEBHOOK_URL no_webhook)
   \<and> formatSlackPayload a_host seoul_only ''heartbeat''
       = Inl (Error ''Unknown notification type: heartbeat'')
   \<and> sendSlackNotification a_host scenario_upstream a_webhook seoul_only ''heartbeat''
       = (Inr False,
          [ConsoleError ''Error sending Slack notification:''
             (Some (Error ''Unknown notification type: heartbeat''))])
   \<and> sendSlackNotification a_host scenario_upstream no_webhook seoul_only ''heartbeat''
       = (Inr False, [ConsoleError ''Slack webhook URL not configured'' None])"
proof -
  have types: "''heartbeat'' \<noteq> ''components''" "''heartbeat'' \<noteq> ''incidents''"
    by simp_all
  have hooks: "truthy (SLACK_WEBHOOK_URL a_webhook)" "\<not> truthy (SLACK_WEBHOOK_URL no_webhook)"
    by (simp_all add: truthy_def a_webhook_def no_webhook_def)
  from unknown_type_is_caught [OF types, of a_host seoul_only a_webhook scenario_upstream]
       unknown_type_is_caught [OF types, of a_host seoul_only no_webhook scenario_upstream]
       hooks
  show ?thesis
    by simp
qed

section \<open>The timeline of an incident\<close>

lemma head_not_entry:
  "\<not> prefix ''*Latest Update:*'' (getStatusEmoji lower st @ x)"
  "\<not> prefix ''*Update '' (getStatusEmoji lower st @ x)"
  by (simp_all add: getStatusEmoji_def Let_def glyph_warning_def glyph_magnifier_left_def
        glyph_magnifier_right_def glyph_eyes_def glyph_check_def glyph_memo_def)

lemma entry_is_entry: "is_update_entry (update_entry n iu)"
  by (cases iu) (simp add: update_entry_def Let_def)

lemma time_not_entry: "\<not> is_update_entry (update_time h iu)"
  by (cases iu) (simp add: update_time_def Let_def)

lemma entries_of_updates:
  "filter is_update_entry (concat (map (update_blocks h n) ius)) = map (update_entry n) ius"
  by (induction ius) (simp_all add: update_blocks_def entry_is_entry time_not_entry)

lemma entries_of_timeline:
  assumes "us = (case i_incident_updates inc of None \<Rightarrow> [] | Some l \<Rightarrow> l)"
  shows "filter is_update_entry (timeline_blocks h inc)
           = map (update_entry (min 3 (length us))) (enumerate 0 (take 3 us))"
proof (cases "us = []")
  case True
  with assms show ?thesis
    by (simp add: timeline_blocks_def split: option.splits)
next
  case False
  have "length (take 3 us) = min 3 (length us)"
    by simp
  with False assms show ?thesis
    by (simp add: timeline_blocks_def Let_def entries_of_updates del: length_take
             split: option.splits)
qed

lemma entries_of_incident:
  assumes "us = (case i_incident_updates inc of None \<Rightarrow> [] | Some l \<Rightarrow> l)"
  shows "filter is_update_entry (incident_blocks h inc)
           = map (update_entry (min 3 (length us))) (enumerate 0 (take 3 us))"
  using entries_of_timeline [OF assms, of h]
  by (simp add: incident_blocks_def Let_def head_not_entry split: option.splits)

lemma incident_in_payload:
  assumes "d_incidents d = Some incs" "inc \<in> set incs"
  shows "sublist (incident_blocks h inc) (p_blocks (formatIncidentsPayload h d))"
proof -
  from assms(2) obtain xs ys where incs: "incs = xs @ inc # ys"
    by (auto simp: in_set_conv_decomp)
  have "p_blocks (formatIncidentsPayload h d)
          = ([Header (glyph_siren @ '' Cloudflare Incident Alert''), Divider]
             @ concat (map (incident_blocks h) xs))
            @ incident_blocks h inc
            @ (concat (map (incident_blocks h) ys) @ [Context (''Last checked: '' @ h_now h)])"
    using assms(1) incs by (simp add: formatIncidentsPayload_def)
  then show ?thesis
    by (metis sublist_appendI)
qed

text \<open>
  C5. For every incident, with \<open>us\<close> its updates (none when the key is absent), the
  entries of updates in its blocks are those of the first three updates, in their order,
  and no more: their number is the smaller of 3 and the number of updates. When there are more than three updates, the
  three entries are followed by the note with the number of the remaining updates, and
  no entry comes after the note; for five updates the note reads "2 more updates not
  shown". The blocks of an incident of the document are a part of the message.
\<close>

theorem timeline_truncated:
  assumes "us = (case i_incident_updates inc of None \<Rightarrow> [] | Some l \<Rightarrow> l)"
  shows "filter is_update_entry (incident_blocks h inc)
           = map (update_entry (min 3 (length us))) (enumerate 0 (take 3 us))
         \<and> length (filter is_update_entry (incident_blocks h inc)) = min 3 (length us)
         \<and> (3 < length us \<longrightarrow>
              (\<exists>pre post.
                 incident_blocks h inc
                   = pre @ Context (''_'' @ show_nat (length us - 3) @ '' more updates not shown_'')
                         # post
                 \<and> length (filter is_update_entry pre) = 3
                 \<and> filter is_update_entry post = []))
         \<and> (length us = 5 \<longrightarrow>
              length (filter is_update_entry (incident_blocks h inc)) = 3
              \<and> Context ''_2 more updates not shown_'' \<in> set (incident_blocks h inc))
         \<and> (d_incidents d = Some incs \<and> inc \<in> set incs \<longrightarrow>
              sublist (incident_blocks h inc) (p_blocks (formatIncidentsPayload h d)))"
proof -
  note entries = entries_of_incident [OF assms, of h]
  have count: "length (filter is_update_entry (incident_blocks h inc)) = min 3 (length us)"
    by (simp add: entries)
  have note_after:
    "\<exists>pre post.
       incident_blocks h inc
         = pre @ Context (''_'' @ show_nat (length us - 3) @ '' more updates not shown_'') # post
       \<and> length (filter is_update_entry pre) = 3
       \<and> filter is_update_entry post = []"
    if more: "3 < length us"
  proof -
    let ?note = "Context (''_'' @ show_nat (length us - 3) @ '' more updates not shown_'')"
    let ?head = "hd (incident_blocks h inc)"
    let ?pre = "[?head, Section ''*Incident Timeline:*'']
                @ concat (map (update_blocks h 3) (enumerate 0 (take 3 us)))"
    let ?post = "(case i_components inc of
                    None \<Rightarrow> []
                  | Some cs \<Rightarrow>
                      if length cs > 0
                      then [Section (''*Affected Components:* '' @ join '', '' (map c_name cs))]
                      else [])
                 @ [Divider]"
    from more have nonempty: "us \<noteq> []"
      by auto
    with assms have "i_incident_updates inc = Some us"
      by (simp split: option.splits)
    with more nonempty have split: "incident_blocks h inc = ?pre @ ?note # ?post"
      by (simp add: incident_blocks_def timeline_blocks_def Let_def min_def)
    have "\<not> is_update_entry ?head"
      by (simp add: incident_blocks_def Let_def head_not_entry)
    with more have "length (filter is_update_entry ?pre) = 3"
      by (simp add: entries_of_updates)
    moreover have "filter is_update_entry ?post = []"
      by (simp split: option.splits)
    ultimately show ?thesis using split
      by blast
  qed
  have five: "length (filter is_update_entry (incident_blocks h inc)) = 3
              \<and> Context ''_2 more updates not shown_'' \<in> set (incident_blocks h inc)"
    if "length us = 5"
  proof -
    have "show_nat (5 - 3) = ''2''"
      by code_simp
    with that note_after count show ?thesis
      by auto
  qed
  from entries count note_after five incident_in_payload show ?thesis
    by blast
qed

theorem timeline_truncated_witness:
  "five_updates = (case i_incident_updates seoul_incident of None \<Rightarrow> [] | Some l \<Rightarrow> l)
   \<and> length five_updates = 5
   \<and> filter is_update_entry (incident_blocks a_host seoul_incident)
       = [Section (''*Latest Update:* [investigating]'' @ newline @ ''Report 5''),
          Section (''*Update 2:* [investigating]'' @ newline @ ''Report 4''),
          Section (''*Update 1:* [investigating]'' @ newline @ ''Report 3'')]
   \<and> Context ''_2 more updates not shown_'' \<in> set (incident_blocks a_host seoul_incident)
   \<and> d_incidents incidents_listing = Some [seoul_incident]
   \<and> sublist (incident_blocks a_host seoul_incident)
        (p_blocks (formatIncidentsPayload a_host incidents_listing))"
proof -
  have updates: "five_updates
                   = (case i_incident_updates seoul_incident of None \<Rightarrow> [] | Some l \<Rightarrow> l)"
    by (simp add: seoul_incident_def)
  have five: "length five_updates = 5"
    by (simp add: five_updates_def)
  have listed: "d_incidents incidents_listing = Some [seoul_incident]"
    by (simp add: incidents_listing_def)
  have entries: "map (update_entry (min 3 (length five_updates))) (enumerate 0 (take 3 five_updates))
       = [Section (''*Latest Update:* [investigating]'' @ newline @ ''Report 5''),
          Section (''*Update 2:* [investigating]'' @ newline @ ''Report 4''),
          Section (''*Update 1:* [investigating]'' @ newline @ ''Report 3'')]"
    by code_simp
  from timeline_truncated [OF updates, of a_host incidents_listing "[seoul_incident]"]
       updates five listed entries
  show ?thesis
    by simp
qed

section \<open>A component without a status\<close>

lemma component_lines_Inr:
  "(\<exists>ls. component_lines cs = Inr ls) \<longleftrightarrow> (\<forall>c\<in>set cs. c_status c \<noteq> None)"
  by (induction cs) (auto simp: component_line_def Let_def split: option.splits sum.splits)

lemma component_lines_Inl:
  "component_lines cs = Inl e \<Longrightarrow> e = TypeError"
  by (induction cs) (auto simp: component_line_def Let_def split: option.splits sum.splits)

lemma component_lines_TypeError:
  "(\<exists>c\<in>set cs. c_status c = None) \<longleftrightarrow> component_lines cs = Inl TypeError"
proof
  assume "\<exists>c\<in>set cs. c_status c = None"
  with component_lines_Inr [of cs] obtain e where "component_lines cs = Inl e"
    by (cases "component_lines cs") auto
  with component_lines_Inl show "component_lines cs = Inl TypeError"
    by blast
next
  assume "component_lines cs = Inl TypeError"
  with component_lines_Inr [of cs] show "\<exists>c\<in>set cs. c_status c = None"
    by auto
qed

lemma formatComponentsPayload_TypeError:
  "formatComponentsPayload h d = Inl TypeError \<longleftrightarrow>
     (\<exists>cs. d_components d = Some cs \<and> (\<exists>c\<in>set cs. c_status c = None))"
  by (auto simp: formatComponentsPayload_def Let_def component_lines_TypeError
           split: option.splits sum.splits)

lemma formatComponentsPayload_Inl:
  "formatComponentsPayload h d = Inl e \<Longrightarrow> e = TypeError"
  by (auto simp: formatComponentsPayload_def Let_def dest: component_lines_Inl
           split: option.splits sum.splits if_splits)

text \<open>
  C10. When a component of the document has no status (the key is absent or
  \<open>null\<close>), rendering its line raises a \<open>TypeError\<close>, and so does
  \<open>formatComponentsPayload\<close>; the components formatter returns a payload exactly when
  every listed component has a status. The incidents formatter always returns a
  payload; for an incident without a status it shows the warning glyph and the text
  "Unknown".
\<close>

theorem missing_status_raises:
  "(d_components d = Some cs \<and> c \<in> set cs \<and> c_status c = None \<longrightarrow>
      component_line c = Inl TypeError \<and> formatComponentsPayload h d = Inl TypeError)
   \<and> ((\<exists>p. formatComponentsPayload h d = Inr p) \<longleftrightarrow>
        (\<forall>c \<in> set (case d_components d of None \<Rightarrow> [] | Some cs \<Rightarrow> cs). c_status c \<noteq> None))
   \<and> formatSlackPayload h d ''incidents'' = Inr (formatIncidentsPayload h d)
   \<and> (i_status i = None \<longrightarrow>
        getStatusEmoji (h_toLowerCase h) (i_status i) = glyph_warning
        \<and> (\<exists>rest more.
              incident_blocks h i =
                Section (glyph_warning @ '' *'' @ i_name i @ ''*'' @ newline
                         @ ''*Status:* Unknown'' @ rest) # more))"
proof -
  have a: "component_line c = Inl TypeError \<and> formatComponentsPayload h d = Inl TypeError"
    if "d_components d = Some cs \<and> c \<in> set cs \<and> c_status c = None"
    using that formatComponentsPayload_TypeError [of h d]
    by (auto simp: component_line_def Let_def)
  have b: "(\<exists>p. formatComponentsPayload h d = Inr p) \<longleftrightarrow>
        (\<forall>c \<in> set (case d_components d of None \<Rightarrow> [] | Some cs \<Rightarrow> cs). c_status c \<noteq> None)"
  proof (cases "formatComponentsPayload h d")
    case (Inl e)
    with formatComponentsPayload_Inl have "formatComponentsPayload h d = Inl TypeError"
      by blast
    with formatComponentsPayload_TypeError [of h d] show ?thesis
      by auto
  next
    case (Inr p)
    with formatComponentsPayload_TypeError [of h d]
    have "\<not> (\<exists>cs. d_components d = Some cs \<and> (\<exists>c\<in>set cs. c_status c = None))"
      by simp
    with Inr show ?thesis
      by (cases "d_components d") auto
  qed
  have c: "formatSlackPayload h d ''incidents'' = Inr (formatIncidentsPayload h d)"
    by (simp add: formatSlackPayload_def)
  have e: "getStatusEmoji (h_toLowerCase h) (i_status i) = glyph_warning
        \<and> (\<exists>rest more.
              incident_blocks h i =
                Section (glyph_warning @ '' *'' @ i_name i @ ''*'' @ newline
                         @ ''*Status:* Unknown'' @ rest) # more)"
    if "i_status i = None"
    using that by (simp add: getStatusEmoji_def truthy_def incident_blocks_def Let_def or_else_def)
  from a b c e show ?thesis
    by blast
qed

theorem missing_status_raises_witness:
  "d_components statusless_listing = Some [seoul_node, statusless]
   \<and> statusless \<in> set [seoul_node, statusless]
   \<and> c_status statusless = None
   \<and> component_line statusless = Inl TypeError
   \<and> formatComponentsPayload a_host statusless_listing = Inl TypeError
   \<and> i_status seoul_incident = None
   \<and> getStatusEmoji (h_toLowerCase a_host) (i_status seoul_incident) = glyph_warning
   \<and> formatSlackPayload a_host incidents_listing ''incidents''
       = Inr (formatIncidentsPayload a_host incidents_listing)
   \<and> p_blocks (formatIncidentsPayload a_host incidents_listing) ! 2
       = Section (glyph_warning @ '' *Seoul routing*'' @ newline @ ''*Status:* Unknown''
                  @ newline @ ''*Impact: minor*'')"
proof -
  have listed: "d_components statusless_listing = Some [seoul_node, statusless]"
    by (simp add: statusless_listing_def)
  have bare: "c_status statusless = None" "i_status seoul_incident = None"
    by (simp_all add: statusless_def seoul_incident_def)
  have line: "p_blocks (formatIncidentsPayload a_host incidents_listing) ! 2
       = Section (glyph_warning @ '' *Seoul routing*'' @ newline @ ''*Status:* Unknown''
                  @ newline @ ''*Impact: minor*'')"
    by code_simp
  from missing_status_raises
         [of statusless_listing "[seoul_node, statusless]" statusless a_host seoul_incident]
       missing_status_raises
         [of incidents_listing "[seoul_node, statusless]" statusless a_host seoul_incident]
       listed bare line
  show ?thesis
    by simp
qed

section \<open>The status token of a component line\<close>

text \<open>
  What holds of C4: the glyph is the check mark exactly for \<open>operational\<close>, the warning
  sign exactly for \<open>degraded_performance\<close> and the cross for every other token; and the
  token is shown with all its underscores replaced exactly when it has at most one.
\<close>

lemma spaced_none: "CHR ''_'' \<notin> set s \<longleftrightarrow> spaced s = s"
  by (induction s) (auto simp: spaced_def)

lemma str_replace_all_iff:
  "str_replace ''_'' '' '' s = spaced s \<longleftrightarrow> count_list s (CHR ''_'') \<le> 1"
proof (induction s)
  case Nil
  show ?case by (simp add: spaced_def)
next
  case (Cons c s)
  show ?case
  proof (cases "c = CHR ''_''")
    case True
    have "spaced s = s \<longleftrightarrow> count_list s (CHR ''_'') = 0"
      using spaced_none [of s] by (simp add: count_list_0_iff)
    with True show ?thesis
      by (auto simp: spaced_def)
  next
    case False
    with Cons show ?thesis
      by (simp add: spaced_def)
  qed
qed

lemma component_line_glyph:
  assumes "c_status c = Some st"
  shows "component_line c =
           Inr (Section ((if st = ''operational'' then glyph_check
                          else if st = ''degraded_performance'' then glyph_warning
                          else glyph_cross)
                         @ '' *'' @ c_name c @ ''*: '' @ str_replace ''_'' '' '' st))"
  using assms by (simp add: component_line_def)

text \<open>
  C4 fails on a token with two underscores: only the first one becomes a space, where
  the claim has "under scheduled maintenance".
\<close>

theorem component_line_second_underscore:
  "component_line twice_underscored
     = Inr (Section (glyph_cross @ '' *Seoul Node*: under scheduled_maintenance''))
   \<and> spaced ''under_scheduled_maintenance'' = ''under scheduled maintenance''"
  by code_simp

section \<open>The filter leaves its argument alone\<close>

lemma all_results_defined:
  "(\<And>x. x \<in> set xs \<Longrightarrow> f x \<noteq> None) \<Longrightarrow> all_results (map f xs) \<noteq> None"
  by (induction xs) (auto split: option.splits sum.splits)

lemma all_results_mono:
  "all_results (map f xs) = Some R \<Longrightarrow> (\<And>x r. x \<in> set xs \<Longrightarrow> f x = Some r \<Longrightarrow> g x = Some r)
     \<Longrightarrow> all_results (map g xs) = Some R"
proof (induction xs arbitrary: R)
  case Nil
  then show ?case by simp
next
  case (Cons x xs)
  show ?case
  proof (cases "f x")
    case None
    with Cons.prems(1) show ?thesis by simp
  next
    case (Some r)
    then have g: "g x = Some r"
      using Cons.prems(2) by simp
    show ?thesis
    proof (cases r)
      case (Inl e)
      with Some g Cons.prems(1) show ?thesis by simp
    next
      case (Inr y)
      with Some Cons.prems(1) obtain R' where R': "all_results (map f xs) = Some R'"
        by (auto split: option.splits)
      with Cons.IH [OF R'] Cons.prems(2) have "all_results (map g xs) = Some R'"
        by simp
      with R' Some g Inr Cons.prems(1) show ?thesis
        by simp
    qed
  qed
qed

lemma all_results_Inr:
  "all_results (map f xs) = Some (Inr ys) \<Longrightarrow> x \<in> set xs \<Longrightarrow> \<exists>y. f x = Some (Inr y)"
  by (induction xs arbitrary: ys) (auto split: option.splits sum.splits)

lemma all_results_mono_Inr:
  assumes "all_results (map f xs) = Some (Inr ys)"
    and "\<And>x y. x \<in> set xs \<Longrightarrow> f x = Some (Inr y) \<Longrightarrow> g x = Some (Inr y)"
  shows "all_results (map g xs) = Some (Inr ys)"
proof (rule all_results_mono [OF assms(1)])
  fix x r
  assume x: "x \<in> set xs" and r: "f x = Some r"
  from all_results_Inr [OF assms(1) x] r obtain y where "r = Inr y"
    by auto
  with assms(2) x r show "g x = Some r"
    by simp
qed

lemma map_result_Some: "map_result f r = Some R \<longleftrightarrow> (\<exists>r'. r = Some r' \<and> R = map_sum id f r')"
  by (auto simp: map_result_def)

lemma map_result_Inr:
  "map_result f r = Some (Inr y) \<longleftrightarrow> (\<exists>x. r = Some (Inr x) \<and> y = f x)"
proof (cases r)
  case None
  then show ?thesis by (simp add: map_result_def)
next
  case (Some r')
  then show ?thesis by (cases r') (auto simp: map_result_def)
qed

lemma deref_prefix: "prefix h h' \<Longrightarrow> deref h a = Some ob \<Longrightarrow> deref h' a = Some ob"
  by (auto simp: deref_def prefix_def nth_append split: if_splits)

lemma stringify_fuel:
  "stringify n stack h v = Some r \<Longrightarrow> n \<le> m \<Longrightarrow> stringify m stack h v = Some r"
proof (induction n arbitrary: m stack v r)
  case 0
  then show ?case by simp
next
  case (Suc n)
  from Suc.prems(2) obtain m' where m: "m = Suc m'" and le: "n \<le> m'"
    by (cases m) auto
  show ?case
  proof (cases v)
    case (Ref a)
    show ?thesis
    proof (cases "a \<in> set stack")
      case True
      with Suc.prems(1) Ref m show ?thesis by simp
    next
      case False
      show ?thesis
      proof (cases "deref h a")
        case None
        with Suc.prems(1) Ref m False show ?thesis by simp
      next
        case (Some ob)
        show ?thesis
        proof (cases ob)
          case (Array xs)
          with Suc.prems(1) Ref False Some obtain R
            where R: "all_results (map (stringify n (a # stack) h) xs) = Some R"
              and r: "r = map_sum id JArray R"
            by (auto simp: map_result_Some)
          have "all_results (map (stringify m' (a # stack) h) xs) = Some R"
          proof (rule all_results_mono [OF R])
            fix x r'
            assume "stringify n (a # stack) h x = Some r'"
            from Suc.IH [OF this le] show "stringify m' (a # stack) h x = Some r'" .
          qed
          with r Ref False Some Array m show ?thesis
            by (simp add: map_result_def)
        next
          case (Object fs)
          let ?f = "\<lambda>k (m :: string \<times> jsval). map_result (Pair (fst m)) (stringify k (a # stack) h (snd m))"
          from Suc.prems(1) Ref False Some Object obtain R
            where R: "all_results (map (?f n) fs) = Some R"
              and r: "r = map_sum id JObject R"
            by (auto simp: map_result_Some)
          have "all_results (map (?f m') fs) = Some R"
          proof (rule all_results_mono [OF R])
            fix x r'
            assume "?f n x = Some r'"
            then obtain r'' where r'': "stringify n (a # stack) h (snd x) = Some r''"
              and r': "r' = map_sum id (Pair (fst x)) r''"
              by (auto simp: map_result_Some)
            from Suc.IH [OF r'' le] r' show "?f m' x = Some r'"
              by (simp add: map_result_def)
          qed
          with r Ref False Some Object m show ?thesis
            by (simp add: map_result_def)
        qed
      qed
    qed
  qed (use Suc.prems m in simp_all)
qed

lemma stringify_extend:
  "stringify n stack h v = Some (Inr j) \<Longrightarrow> prefix h h' \<Longrightarrow> stringify n stack h' v = Some (Inr j)"
proof (induction n arbitrary: stack v j)
  case 0
  then show ?case by simp
next
  case (Suc n)
  show ?case
  proof (cases v)
    case (Ref a)
    from Suc.prems(1) Ref have fresh: "a \<notin> set stack"
      by (auto split: if_splits)
    with Suc.prems(1) Ref obtain ob where ob: "deref h a = Some ob"
      by (cases "deref h a") auto
    from deref_prefix [OF Suc.prems(2) ob] have ob': "deref h' a = Some ob" .
    show ?thesis
    proof (cases ob)
      case (Array xs)
      with Suc.prems(1) Ref fresh ob obtain js
        where js: "all_results (map (stringify n (a # stack) h) xs) = Some (Inr js)"
          and j: "j = JArray js"
        by (auto simp: map_result_Inr)
      have "all_results (map (stringify n (a # stack) h') xs) = Some (Inr js)"
      proof (rule all_results_mono_Inr [OF js])
        fix x y
        assume "stringify n (a # stack) h x = Some (Inr y)"
        from Suc.IH [OF this Suc.prems(2)] show "stringify n (a # stack) h' x = Some (Inr y)" .
      qed
      with j Ref fresh ob' Array show ?thesis
        by (simp add: map_result_def)
    next
      case (Object fs)
      let ?f = "\<lambda>g (m :: string \<times> jsval). map_result (Pair (fst m)) (stringify n (a # stack) g (snd m))"
      from Suc.prems(1) Ref fresh ob Object obtain ms
        where ms: "all_results (map (?f h) fs) = Some (Inr ms)"
          and j: "j = JObject ms"
        by (auto simp: map_result_Inr)
      have "all_results (map (?f h') fs) = Some (Inr ms)"
      proof (rule all_results_mono_Inr [OF ms])
        fix x y
        assume "?f h x = Some (Inr y)"
        then obtain y' where y': "stringify n (a # stack) h (snd x) = Some (Inr y')"
          and y: "y = (fst x, y')"
          by (auto simp: map_result_Inr)
        from Suc.IH [OF y' Suc.prems(2)] y show "?f h' x = Some (Inr y)"
          by (simp add: map_result_def)
      qed
      with j Ref fresh ob' Object show ?thesis
        by (simp add: map_result_def)
    qed
  qed (use Suc.prems in simp_all)
qed

lemma stringify_enough_fuel:
  "card ({..<length h} - set stack) < n \<Longrightarrow> stringify n stack h v \<noteq> None"
proof (induction n arbitrary: stack v)
  case 0
  then show ?case by simp
next
  case (Suc n)
  show ?case
  proof (cases v)
    case (Ref a)
    show ?thesis
    proof (cases "a \<in> set stack \<or> deref h a = None")
      case True
      with Ref show ?thesis by auto
    next
      case False
      then have a: "a \<notin> set stack" "a < length h"
        by (auto simp: deref_def split: if_splits)
      then have eq: "{..<length h} - set (a # stack) = ({..<length h} - set stack) - {a}"
        and mem: "a \<in> {..<length h} - set stack"
        by auto
      have "finite ({..<length h} - set stack)"
        by simp
      from card_Diff1_less [OF this mem] eq
      have "card ({..<length h} - set (a # stack)) < card ({..<length h} - set stack)"
        by simp
      with Suc.prems have "card ({..<length h} - set (a # stack)) < n"
        by simp
      from Suc.IH [OF this] have sub: "stringify n (a # stack) h x \<noteq> None" for x .
      from False obtain ob where ob: "deref h a = Some ob"
        by auto
      show ?thesis
      proof (cases ob)
        case (Array xs)
        from all_results_defined [of xs "stringify n (a # stack) h"] sub
        have "all_results (map (stringify n (a # stack) h) xs) \<noteq> None"
          by simp
        with Ref a ob Array show ?thesis
          by (simp add: map_result_def)
      next
        case (Object fs)
        have "all_results (map (\<lambda>m. map_result (Pair (fst m)) (stringify n (a # stack) h (snd m))) fs)
                \<noteq> None"
          by (rule all_results_defined) (simp add: map_result_def sub)
        with Ref a ob Object show ?thesis
          by (simp add: map_result_def)
      qed
    qed
  qed simp_all
qed

lemma JSON_stringify_total: "JSON_stringify h v \<noteq> None"
proof -
  have "card ({..<length h} - set []) < Suc (length h)"
    by simp
  from stringify_enough_fuel [OF this] show ?thesis
    by (simp add: JSON_stringify_def)
qed

lemma JSON_stringify_extend:
  assumes "JSON_stringify h v = Some (Inr j)" "prefix h h'"
  shows "JSON_stringify h' v = Some (Inr j)"
proof -
  from assms(1) have "stringify (Suc (length h)) [] h v = Some (Inr j)"
    by (simp add: JSON_stringify_def)
  from stringify_extend [OF this assms(2)]
  have "stringify (Suc (length h)) [] h' v = Some (Inr j)" .
  moreover from assms(2) have "Suc (length h) \<le> Suc (length h')"
    by (simp add: prefix_length_le)
  ultimately show ?thesis
    unfolding JSON_stringify_def by (rule stringify_fuel)
qed

lemma parse_extends:
  "JSON_parse j h = (v, h') \<Longrightarrow> prefix h h'"
  "parse_elements js h = (vs, h') \<Longrightarrow> prefix h h'"
  "parse_members ms h = (fs, h') \<Longrightarrow> prefix h h'"
proof (induction j h and js h and ms h arbitrary: v h' and vs h' and fs h'
       rule: JSON_parse_parse_elements_parse_members.induct)
  case (5 js h)
  then show ?case
    by (auto split: prod.splits)
next
  case (6 ms h)
  then show ?case
    by (auto split: prod.splits)
next
  case (8 j js h)
  obtain v1 h1 where one: "JSON_parse j h = (v1, h1)"
    by (cases "JSON_parse j h")
  obtain vs1 h2 where rest: "parse_elements js h1 = (vs1, h2)"
    by (cases "parse_elements js h1")
  from "8.prems" one rest have "h' = h2"
    by simp
  moreover from "8.IH"(1) [OF one] have "prefix h h1" .
  moreover from "8.IH"(2) [OF one [symmetric] rest] have "prefix h1 h2" .
  ultimately show ?case
    by (auto intro: prefix_order.trans)
next
  case (10 m ms h)
  obtain v1 h1 where one: "JSON_parse (snd m) h = (v1, h1)"
    by (cases "JSON_parse (snd m) h")
  obtain fs1 h2 where rest: "parse_members ms h1 = (fs1, h2)"
    by (cases "parse_members ms h1")
  from "10.prems" one rest have "h' = h2"
    by simp
  moreover from "10.IH"(1) [OF one] have "prefix h h1" .
  moreover from "10.IH"(2) [OF one [symmetric] rest] have "prefix h1 h2" .
  ultimately show ?case
    by (auto intro: prefix_order.trans)
qed simp_all

lemma parse_fresh:
  assumes "JSON_parse j h = (Ref a, h')"
  shows "length h \<le> a \<and> a < length h'"
proof (cases j)
  case (JArray js)
  with assms obtain vs h1 where "parse_elements js h = (vs, h1)" "a = length h1" "h' = h1 @ [Array vs]"
    by (auto split: prod.splits)
  with parse_extends(2) [of js h vs h1] show ?thesis
    by (auto dest: prefix_length_le)
next
  case (JObject ms)
  with assms obtain fs h1 where "parse_members ms h = (fs, h1)" "a = length h1" "h' = h1 @ [Object fs]"
    by (auto split: prod.splits)
  with parse_extends(3) [of ms h fs h1] show ?thesis
    by (auto dest: prefix_length_le)
qed (use assms in simp_all)

lemma parse_apart:
  "n \<le> length h \<Longrightarrow> JSON_parse j h = (v, h') \<Longrightarrow>
     (\<forall>ob \<in> set (drop (length h) h'). \<forall>b \<in> obj_refs ob. n \<le> b) \<and> (\<forall>b \<in> val_refs v. n \<le> b)"
  "n \<le> length h \<Longrightarrow> parse_elements js h = (vs, h') \<Longrightarrow>
     (\<forall>ob \<in> set (drop (length h) h'). \<forall>b \<in> obj_refs ob. n \<le> b)
     \<and> (\<forall>x \<in> set vs. \<forall>b \<in> val_refs x. n \<le> b)"
  "n \<le> length h \<Longrightarrow> parse_members ms h = (fs, h') \<Longrightarrow>
     (\<forall>ob \<in> set (drop (length h) h'). \<forall>b \<in> obj_refs ob. n \<le> b)
     \<and> (\<forall>f \<in> set fs. \<forall>b \<in> val_refs (snd f). n \<le> b)"
proof (induction j h and js h and ms h arbitrary: v h' and vs h' and fs h'
       rule: JSON_parse_parse_elements_parse_members.induct)
  case (5 js h)
  obtain vs h1 where p: "parse_elements js h = (vs, h1)"
    by (cases "parse_elements js h")
  from parse_extends(2) [OF p] have len: "length h \<le> length h1"
    by (rule prefix_length_le)
  from "5.prems" p have v: "v = Ref (length h1)" and h': "h' = h1 @ [Array vs]"
    by simp_all
  from "5.IH" [OF "5.prems"(1) p] len "5.prems"(1) show ?case
    by (auto simp: v h')
next
  case (6 ms h)
  obtain fs h1 where p: "parse_members ms h = (fs, h1)"
    by (cases "parse_members ms h")
  from parse_extends(3) [OF p] have len: "length h \<le> length h1"
    by (rule prefix_length_le)
  from "6.prems" p have v: "v = Ref (length h1)" and h': "h' = h1 @ [Object fs]"
    by simp_all
  from "6.IH" [OF "6.prems"(1) p] len "6.prems"(1) show ?case
    by (auto simp: v h')
next
  case (8 j js h)
  obtain v1 h1 where one: "JSON_parse j h = (v1, h1)"
    by (cases "JSON_parse j h")
  obtain vs1 h2 where rest: "parse_elements js h1 = (vs1, h2)"
    by (cases "parse_elements js h1")
  from "8.prems" one rest have eq: "h' = h2" "vs = v1 # vs1"
    by simp_all
  from parse_extends(1) [OF one] have p1: "prefix h h1" .
  from parse_extends(2) [OF rest] have p2: "prefix h1 h2" .
  from p1 "8.prems"(1) have n1: "n \<le> length h1"
    by (auto dest: prefix_length_le)
  note a = "8.IH"(1) [OF "8.prems"(1) one]
  note b = "8.IH"(2) [OF one [symmetric] n1 rest]
  from p2 obtain zs where h2: "h2 = h1 @ zs"
    by (auto simp: prefix_def)
  from p1 have "length h \<le> length h1"
    by (rule prefix_length_le)
  then have "drop (length h) h2 = drop (length h) h1 @ zs" "drop (length h1) h2 = zs"
    by (simp_all add: h2)
  with a b eq show ?case
    by auto
next
  case (10 m ms h)
  obtain v1 h1 where one: "JSON_parse (snd m) h = (v1, h1)"
    by (cases "JSON_parse (snd m) h")
  obtain fs1 h2 where rest: "parse_members ms h1 = (fs1, h2)"
    by (cases "parse_members ms h1")
  from "10.prems" one rest have eq: "h' = h2" "fs = (fst m, v1) # fs1"
    by simp_all
  from parse_extends(1) [OF one] have p1: "prefix h h1" .
  from parse_extends(3) [OF rest] have p2: "prefix h1 h2" .
  from p1 "10.prems"(1) have n1: "n \<le> length h1"
    by (auto dest: prefix_length_le)
  note a = "10.IH"(1) [OF "10.prems"(1) one]
  note b = "10.IH"(2) [OF one [symmetric] n1 rest]
  from p2 obtain zs where h2: "h2 = h1 @ zs"
    by (auto simp: prefix_def)
  from p1 have "length h \<le> length h1"
    by (rule prefix_length_le)
  then have "drop (length h) h2 = drop (length h) h1 @ zs" "drop (length h1) h2 = zs"
    by (simp_all add: h2)
  with a b eq show ?case
    by auto
qed auto

lemma array_filter_subset: "array_filter f xs = Inr ys \<Longrightarrow> set ys \<subseteq> set xs"
  by (induction xs arbitrary: ys) (auto split: sum.splits if_splits)

lemma set_field_refs:
  "(\<Union>f \<in> set (set_field key v fs). val_refs (snd f)) \<subseteq> val_refs v \<union> (\<Union>f \<in> set fs. val_refs (snd f))"
  by (induction fs) auto

lemma prefix_update:
  assumes "prefix h h1" "length h \<le> a"
  shows "prefix h (h1[a := x])"
proof -
  from assms(1) obtain zs where "h1 = h @ zs"
    by (auto simp: prefix_def)
  with assms(2) have "h1[a := x] = h @ zs[a - length h := x]"
    by (simp add: list_update_append)
  then show ?thesis
    by simp
qed

lemma store_outcome:
  assumes "JSON_stringify h data = Some (Inr text)" "JSON_parse text h = (fd, h1)"
  shows "\<exists>out h'. filterForICN_store lower K h data = Some (out, h')
           \<and> (\<forall>v. out = Inr v \<longrightarrow> v = fd)
           \<and> (h' = h1
               \<or> (\<exists>a c fs xs kept.
                     fd = Ref a \<and> deref h1 a = Some (Object fs)
                     \<and> map_of fs ''components'' = Some (Ref c) \<and> deref h1 c = Some (Array xs)
                     \<and> array_filter (icn_callback lower K h1) xs = Inr kept
                     \<and> h' = (h1 @ [Array kept])
                              [a := Object (set_field ''components'' (Ref (length h1)) fs)]))"
proof (cases "get_prop h1 fd ''components''")
  case (Inl e)
  with assms show ?thesis
    by (simp add: filterForICN_store_def)
next
  case (Inr components)
  show ?thesis
  proof (cases "truthy_val components")
    case False
    with Inr assms show ?thesis
      by (simp add: filterForICN_store_def)
  next
    case True
    show ?thesis
    proof (cases "\<exists>a c fs xs kept. fd = Ref a \<and> components = Some (Ref c)
                    \<and> deref h1 a = Some (Object fs) \<and> deref h1 c = Some (Array xs)
                    \<and> array_filter (icn_callback lower K h1) xs = Inr kept")
      case True
      then obtain a c fs xs kept where found: "fd = Ref a" "components = Some (Ref c)"
         "deref h1 a = Some (Object fs)" "deref h1 c = Some (Array xs)"
         "array_filter (icn_callback lower K h1) xs = Inr kept"
        by blast
      with Inr have "map_of fs ''components'' = Some (Ref c)"
        by (simp add: get_prop_def)
      with found Inr assms \<open>truthy_val components\<close> show ?thesis
        by (simp add: filterForICN_store_def)
    next
      case False
      with Inr assms \<open>truthy_val components\<close>
      have "\<exists>e. filterForICN_store lower K h data = Some (Inl e, h1)"
        by (auto simp: filterForICN_store_def split: jsval.splits option.splits obj.splits sum.splits)
      then show ?thesis
        by auto
    qed
  qed
qed

text \<open>
  C9. On every store and every argument the filter returns or throws (it never runs
  without end), and the store it leaves extends the store it found: every object that
  existed before the call is at its address, unchanged, and the argument serialises to
  the same text as before. A returned document is made of new objects only: its root is
  new, and no object allocated by the call refers to an object that existed before.
\<close>

theorem filterForICN_store_frame:
  "\<exists>out h'. filterForICN_store lower K h data = Some (out, h')
     \<and> prefix h h'
     \<and> JSON_stringify h' data = JSON_stringify h data
     \<and> (\<forall>v. out = Inr v \<longrightarrow> (\<forall>b \<in> val_refs v. length h \<le> b))
     \<and> apart (length h) h'"
proof (cases "JSON_stringify h data")
  case None
  with JSON_stringify_total show ?thesis
    by blast
next
  case (Some r)
  show ?thesis
  proof (cases r)
    case (Inl e)
    with Some show ?thesis
      by (simp add: filterForICN_store_def apart_def)
  next
    case (Inr doc)
    obtain fd h1 where parse: "JSON_parse doc h = (fd, h1)"
      by (cases "JSON_parse doc h")
    from Some Inr have doc: "JSON_stringify h data = Some (Inr doc)"
      by simp
    from parse_extends(1) [OF parse] have ext: "prefix h h1" .
    from parse_apart(1) [OF le_refl parse]
    have new: "\<forall>ob \<in> set (drop (length h) h1). \<forall>b \<in> obj_refs ob. length h \<le> b"
      and root: "\<forall>b \<in> val_refs fd. length h \<le> b"
      by simp_all
    from store_outcome [OF doc parse, of lower K] obtain out h'
      where run: "filterForICN_store lower K h data = Some (out, h')"
        and out: "\<forall>v. out = Inr v \<longrightarrow> v = fd"
        and h': "h' = h1
               \<or> (\<exists>a c fs xs kept.
                     fd = Ref a \<and> deref h1 a = Some (Object fs)
                     \<and> map_of fs ''components'' = Some (Ref c) \<and> deref h1 c = Some (Array xs)
                     \<and> array_filter (icn_callback lower K h1) xs = Inr kept
                     \<and> h' = (h1 @ [Array kept])
                              [a := Object (set_field ''components'' (Ref (length h1)) fs)])"
      by blast
    have frame: "prefix h h' \<and> apart (length h) h'"
    proof (cases "h' = h1")
      case True
      with ext new show ?thesis
        by (simp add: apart_def)
    next
      case False
      with h' obtain a c fs xs kept
        where fd: "fd = Ref a" and a: "deref h1 a = Some (Object fs)"
          and field: "map_of fs ''components'' = Some (Ref c)"
          and c: "deref h1 c = Some (Array xs)"
          and kept: "array_filter (icn_callback lower K h1) xs = Inr kept"
          and eq: "h' = (h1 @ [Array kept])
                          [a := Object (set_field ''components'' (Ref (length h1)) fs)]"
        by blast
      let ?new = "Object (set_field ''components'' (Ref (length h1)) fs)"
      from parse_fresh parse fd have fresh: "length h \<le> a" "a < length h1"
        by auto
      from ext have "prefix h (h1 @ [Array kept])"
        by (simp add: prefix_prefix)
      from prefix_update [OF this fresh(1)] eq have p: "prefix h h'"
        by simp
      from ext have len: "length h \<le> length h1"
        by (rule prefix_length_le)
      have in_new: "ob \<in> set (drop (length h) h1)"
        if "deref h1 b = Some ob" "length h \<le> b" for b ob
      proof -
        from that have "b - length h < length (drop (length h) h1)"
          and "drop (length h) h1 ! (b - length h) = ob"
          by (auto simp: deref_def split: if_splits)
        then show ?thesis
          by (auto simp: in_set_conv_nth)
      qed
      from in_new [OF a fresh(1)] new have fs: "\<forall>b \<in> obj_refs (Object fs). length h \<le> b"
        by blast
      from map_of_SomeD [OF field] have "c \<in> obj_refs (Object fs)"
        by force
      with fs have "length h \<le> c"
        by blast
      from in_new [OF c this] new have "\<forall>b \<in> obj_refs (Array xs). length h \<le> b"
        by blast
      with array_filter_subset [OF kept] have array: "\<forall>b \<in> obj_refs (Array kept). length h \<le> b"
        by auto
      have changed: "\<forall>b \<in> obj_refs ?new. length h \<le> b"
      proof
        fix b
        assume "b \<in> obj_refs ?new"
        with set_field_refs [of "''components''" "Ref (length h1)" fs]
        have "b = length h1 \<or> b \<in> obj_refs (Object fs)"
          by auto
        with fs len show "length h \<le> b"
          by auto
      qed
      from fresh(1) have "drop (length h) h'
          = (drop (length h) h1 @ [Array kept])[a - length h := ?new]"
        using len by (simp add: eq drop_update_swap)
      then have "set (drop (length h) h')
          \<subseteq> insert ?new (set (drop (length h) h1) \<union> {Array kept})"
        using set_update_subset_insert [of "drop (length h) h1 @ [Array kept]" "a - length h" ?new]
        by simp
      with new array changed have "apart (length h) h'"
        unfolding apart_def by blast
      with p show ?thesis
        by simp
    qed
    then have "prefix h h'"
      by simp
    from JSON_stringify_extend [OF doc this] doc
    have same: "JSON_stringify h' data = JSON_stringify h data"
      by simp
    from run frame same out root show ?thesis
      by blast
  qed
qed

theorem filterForICN_store_frame_witness:
  "filterForICN_store ascii_lower [''seoul''] scenario_store (Ref 4) = Some (Inr (Ref 9), filtered_store)
   \<and> prefix scenario_store filtered_store
   \<and> JSON_stringify scenario_store (Ref 4) = Some (Inr (enc_document scenario_document))
   \<and> JSON_stringify filtered_store (Ref 4) = Some (Inr (enc_document scenario_document))
   \<and> JSON_stringify filtered_store (Ref 9)
       = Some (Inr (enc_document (filterForICN ascii_lower [''seoul''] scenario_document)))
   \<and> length scenario_store \<le> 9
   \<and> apart (length scenario_store) filtered_store"
proof -
  have run: "filterForICN_store ascii_lower [''seoul''] scenario_store (Ref 4)
               = Some (Inr (Ref 9), filtered_store)"
    by code_simp
  have before: "JSON_stringify scenario_store (Ref 4) = Some (Inr (enc_document scenario_document))"
    by code_simp
  have result: "JSON_stringify filtered_store (Ref 9)
       = Some (Inr (enc_document (filterForICN ascii_lower [''seoul''] scenario_document)))"
    by code_simp
  from filterForICN_store_frame [of ascii_lower "[''seoul'']" scenario_store "Ref 4"] run before result
  show ?thesis
    by simp
qed

section \<open>The store and the records agree\<close>

lemma repr_elements_all2: "repr_elements h xs js \<longleftrightarrow> list_all2 (repr h) xs js"
  by (induction js arbitrary: xs) (auto simp: list_all2_Cons2 split: list.splits)

lemma repr_members_all2:
  "repr_members h fs ms \<longleftrightarrow> list_all2 (\<lambda>f m. fst f = fst m \<and> repr h (snd f) (snd m)) fs ms"
  by (induction ms arbitrary: fs) (auto simp: list_all2_Cons2 split: list.splits)

lemma repr_Array:
  "repr h v (JArray js) \<longleftrightarrow> (\<exists>a xs. v = Ref a \<and> deref h a = Some (Array xs) \<and> list_all2 (repr h) xs js)"
  by (auto simp: repr_elements_all2 split: jsval.splits option.splits obj.splits)

lemma repr_Object:
  "repr h v (JObject ms) \<longleftrightarrow>
     (\<exists>a fs. v = Ref a \<and> deref h a = Some (Object fs)
        \<and> list_all2 (\<lambda>f m. fst f = fst m \<and> repr h (snd f) (snd m)) fs ms)"
  by (auto simp: repr_members_all2 split: jsval.splits option.splits obj.splits)

lemma repr_det:
  "repr h v j \<Longrightarrow> repr h v j' \<Longrightarrow> j = j'"
  "repr_elements h xs js \<Longrightarrow> repr_elements h xs js' \<Longrightarrow> js = js'"
  "repr_members h fs ms \<Longrightarrow> repr_members h fs ms' \<Longrightarrow> ms = ms'"
proof (induction h v j and h xs js and h fs ms arbitrary: j' and js' and ms'
       rule: repr_repr_elements_repr_members.induct)
  case (1 h v)
  then show ?case by (cases j') (auto split: jsval.splits)
next
  case (2 h v b)
  then show ?case by (cases j') (auto split: jsval.splits)
next
  case (3 h v i)
  then show ?case by (cases j') (auto split: jsval.splits)
next
  case (4 h v s)
  then show ?case by (cases j') (auto split: jsval.splits)
next
  case (5 h v js)
  then show ?case
    by (cases j') (auto split: jsval.splits option.splits obj.splits)
next
  case (6 h v ms)
  then show ?case
    by (cases j') (auto split: jsval.splits option.splits obj.splits)
next
  case (7 h xs)
  then show ?case by (cases js') auto
next
  case (8 h xs j js)
  then show ?case by (cases js') (auto split: list.splits)
next
  case (9 h fs)
  then show ?case by (cases ms') auto
next
  case (10 h fs m ms)
  then show ?case by (cases ms') (auto split: list.splits simp: prod_eq_iff)
qed

lemma depth_element: "j \<in> set js \<Longrightarrow> depth j \<le> depth_elements js"
  by (induction js) auto

lemma depth_member: "m \<in> set ms \<Longrightarrow> depth (snd m) \<le> depth_members ms"
  by (induction ms) auto

lemma repr_extend:
  "repr h v j \<Longrightarrow> prefix h h' \<Longrightarrow> repr h' v j"
  "repr_elements h xs js \<Longrightarrow> prefix h h' \<Longrightarrow> repr_elements h' xs js"
  "repr_members h fs ms \<Longrightarrow> prefix h h' \<Longrightarrow> repr_members h' fs ms"
proof (induction h v j and h xs js and h fs ms
       rule: repr_repr_elements_repr_members.induct)
  case (5 h v js)
  then show ?case
    by (auto split: jsval.splits option.splits obj.splits dest: deref_prefix)
next
  case (6 h v ms)
  then show ?case
    by (auto split: jsval.splits option.splits obj.splits dest: deref_prefix)
next
  case (8 h xs j js)
  then show ?case by (auto split: list.splits)
next
  case (10 h fs m ms)
  then show ?case by (auto split: list.splits)
qed simp_all

lemma deref_update: "deref (h[a := x]) b = (if b = a \<and> a < length h then Some x else deref h b)"
  by (simp add: deref_def)

lemma repr_update:
  "repr h v j \<Longrightarrow> repr h (Ref a) ja \<Longrightarrow> depth j < depth ja \<Longrightarrow> repr (h[a := x]) v j"
  "repr_elements h xs js \<Longrightarrow> repr h (Ref a) ja \<Longrightarrow> depth_elements js < depth ja
     \<Longrightarrow> repr_elements (h[a := x]) xs js"
  "repr_members h fs ms \<Longrightarrow> repr h (Ref a) ja \<Longrightarrow> depth_members ms < depth ja
     \<Longrightarrow> repr_members (h[a := x]) fs ms"
proof (induction h v j and h xs js and h fs ms
       rule: repr_repr_elements_repr_members.induct)
  case (5 h v js)
  from "5.prems"(1) obtain b xs where v: "v = Ref b" and b: "deref h b = Some (Array xs)"
    and xs: "repr_elements h xs js"
    by (auto split: jsval.splits option.splits obj.splits)
  have "b \<noteq> a"
  proof
    assume "b = a"
    with v "5.prems"(1,2) have "JArray js = ja"
      using repr_det(1) by blast
    with "5.prems"(3) show False
      by simp
  qed
  moreover from "5.prems"(3) have "depth_elements js < depth ja"
    by simp
  from "5.IH" [OF v b refl xs "5.prems"(2) this]
  have "repr_elements (h[a := x]) xs js" .
  ultimately show ?case
    using v b by (simp add: deref_update)
next
  case (6 h v ms)
  from "6.prems"(1) obtain b fs where v: "v = Ref b" and b: "deref h b = Some (Object fs)"
    and fs: "repr_members h fs ms"
    by (auto split: jsval.splits option.splits obj.splits)
  have "b \<noteq> a"
  proof
    assume "b = a"
    with v "6.prems"(1,2) have "JObject ms = ja"
      using repr_det(1) by blast
    with "6.prems"(3) show False
      by simp
  qed
  moreover from "6.prems"(3) have "depth_members ms < depth ja"
    by simp
  from "6.IH" [OF v b refl fs "6.prems"(2) this]
  have "repr_members (h[a := x]) fs ms" .
  ultimately show ?case
    using v b by (simp add: deref_update)
next
  case (8 h xs j js)
  then show ?case by (auto split: list.splits)
next
  case (10 h fs m ms)
  then show ?case by (auto split: list.splits)
qed simp_all

lemma all_results_all2:
  "all_results (map f xs) = Some (Inr ys) \<longleftrightarrow> list_all2 (\<lambda>x y. f x = Some (Inr y)) xs ys"
proof (induction xs arbitrary: ys)
  case Nil
  show ?case by auto
next
  case (Cons x xs)
  show ?case
  proof (cases ys)
    case Nil
    then show ?thesis
      by (auto split: option.splits sum.splits)
  next
    case (Cons y ys')
    with Cons.IH [of ys'] show ?thesis
      by (auto split: option.splits sum.splits)
  qed
qed

lemma stringify_repr:
  "stringify n stack h v = Some (Inr j) \<Longrightarrow> repr h v j"
proof (induction n arbitrary: stack v j)
  case 0
  then show ?case by simp
next
  case (Suc n)
  show ?case
  proof (cases v)
    case (Ref a)
    from Suc.prems Ref have fresh: "a \<notin> set stack"
      by (auto split: if_splits)
    with Suc.prems Ref obtain ob where ob: "deref h a = Some ob"
      by (cases "deref h a") auto
    show ?thesis
    proof (cases ob)
      case (Array xs)
      with Suc.prems Ref fresh ob obtain js
        where js: "all_results (map (stringify n (a # stack) h) xs) = Some (Inr js)"
          and j: "j = JArray js"
        by (auto simp: map_result_Inr)
      from js have "list_all2 (\<lambda>x y. stringify n (a # stack) h x = Some (Inr y)) xs js"
        by (simp add: all_results_all2)
      then have "list_all2 (repr h) xs js"
        by (rule list_all2_mono) (rule Suc.IH)
      with j Ref ob Array show ?thesis
        by (simp add: repr_Array del: repr.simps)
    next
      case (Object fs)
      let ?f = "\<lambda>m :: string \<times> jsval. map_result (Pair (fst m)) (stringify n (a # stack) h (snd m))"
      from Suc.prems Ref fresh ob Object obtain ms
        where ms: "all_results (map ?f fs) = Some (Inr ms)"
          and j: "j = JObject ms"
        by (auto simp: map_result_Inr)
      from ms have "list_all2 (\<lambda>x y. ?f x = Some (Inr y)) fs ms"
        by (simp add: all_results_all2)
      then have "list_all2 (\<lambda>f m. fst f = fst m \<and> repr h (snd f) (snd m)) fs ms"
      proof (rule list_all2_mono)
        fix x y
        assume "?f x = Some (Inr y)"
        then obtain y' where "stringify n (a # stack) h (snd x) = Some (Inr y')" "y = (fst x, y')"
          by (auto simp: map_result_Inr)
        with Suc.IH show "fst x = fst y \<and> repr h (snd x) (snd y)"
          by auto
      qed
      with j Ref ob Object show ?thesis
        by (simp add: repr_Object del: repr.simps)
    qed
  qed (use Suc.prems in auto)
qed

lemma repr_stringify:
  "repr h v j \<Longrightarrow> (\<And>a. a \<in> set stack \<Longrightarrow> \<exists>ja. repr h (Ref a) ja \<and> depth j < depth ja)
     \<Longrightarrow> depth j < n \<Longrightarrow> stringify n stack h v = Some (Inr j)"
proof (induction n arbitrary: stack v j)
  case 0
  then show ?case by simp
next
  case (Suc n)
  show ?case
  proof (cases j)
    case (JArray js)
    with Suc.prems(1) obtain a xs where v: "v = Ref a" and a: "deref h a = Some (Array xs)"
      and xs: "list_all2 (repr h) xs js"
      by (auto simp: repr_Array simp del: repr.simps)
    have fresh: "a \<notin> set stack"
    proof
      assume "a \<in> set stack"
      with Suc.prems(2) obtain ja where "repr h (Ref a) ja" "depth j < depth ja"
        by blast
      with Suc.prems(1) v repr_det(1) show False
        by fastforce
    qed
    have "list_all2 (\<lambda>x y. stringify n (a # stack) h x = Some (Inr y)) xs js"
    proof (rule list.rel_mono_strong [OF xs])
      fix x y
      assume r: "repr h x y"
      assume "y \<in> set js"
      then have small: "depth y < depth j"
        using depth_element JArray by fastforce
      have above: "\<exists>ja. repr h (Ref b) ja \<and> depth y < depth ja" if "b \<in> set (a # stack)" for b
      proof (cases "b = a")
        case True
        with Suc.prems(1) v small show ?thesis
          by blast
      next
        case False
        with that Suc.prems(2) [of b] small show ?thesis
          by fastforce
      qed
      from small Suc.prems(3) have "depth y < n"
        by simp
      with r above show "stringify n (a # stack) h x = Some (Inr y)"
        by (rule Suc.IH)
    qed
    with v a fresh JArray show ?thesis
      by (simp add: all_results_all2 [symmetric] map_result_def)
  next
    case (JObject ms)
    with Suc.prems(1) obtain a fs where v: "v = Ref a" and a: "deref h a = Some (Object fs)"
      and fs: "list_all2 (\<lambda>f m. fst f = fst m \<and> repr h (snd f) (snd m)) fs ms"
      by (auto simp: repr_Object simp del: repr.simps)
    have fresh: "a \<notin> set stack"
    proof
      assume "a \<in> set stack"
      with Suc.prems(2) obtain ja where "repr h (Ref a) ja" "depth j < depth ja"
        by blast
      with Suc.prems(1) v repr_det(1) show False
        by fastforce
    qed
    let ?f = "\<lambda>m :: string \<times> jsval. map_result (Pair (fst m)) (stringify n (a # stack) h (snd m))"
    have "list_all2 (\<lambda>x y. ?f x = Some (Inr y)) fs ms"
    proof (rule list.rel_mono_strong [OF fs])
      fix x :: "string \<times> jsval" and y :: "string \<times> json"
      assume xy: "fst x = fst y \<and> repr h (snd x) (snd y)"
      assume "y \<in> set ms"
      then have small: "depth (snd y) < depth j"
        using depth_member JObject by fastforce
      have above: "\<exists>ja. repr h (Ref b) ja \<and> depth (snd y) < depth ja"
        if "b \<in> set (a # stack)" for b
      proof (cases "b = a")
        case True
        with Suc.prems(1) v small show ?thesis
          by blast
      next
        case False
        with that Suc.prems(2) [of b] small show ?thesis
          by fastforce
      qed
      from small Suc.prems(3) have "depth (snd y) < n"
        by simp
      with xy above have "stringify n (a # stack) h (snd x) = Some (Inr (snd y))"
        by (intro Suc.IH) auto
      with xy show "?f x = Some (Inr y)"
        by (simp add: map_result_def)
    qed
    then have "all_results (map ?f fs) = Some (Inr ms)"
      by (simp only: all_results_all2)
    with v a fresh JObject show ?thesis
      by (simp add: map_result_Inr)
  qed (use Suc.prems(1) in auto)
qed

lemma stringify_any_fuel:
  assumes "stringify n [] h v = Some r"
  shows "JSON_stringify h v = Some r"
proof (cases "n \<le> Suc (length h)")
  case True
  from stringify_fuel [OF assms True] show ?thesis
    by (simp add: JSON_stringify_def)
next
  case False
  from JSON_stringify_total [of h v] obtain r' where r': "stringify (Suc (length h)) [] h v = Some r'"
    by (auto simp: JSON_stringify_def)
  from False have "Suc (length h) \<le> n"
    by simp
  from stringify_fuel [OF r' this] assms r' show ?thesis
    by (simp add: JSON_stringify_def)
qed

lemma repr_JSON_stringify: "repr h v j \<longleftrightarrow> JSON_stringify h v = Some (Inr j)"
proof
  assume "repr h v j"
  then have "stringify (Suc (depth j)) [] h v = Some (Inr j)"
    by (rule repr_stringify) simp_all
  then show "JSON_stringify h v = Some (Inr j)"
    by (rule stringify_any_fuel)
next
  assume "JSON_stringify h v = Some (Inr j)"
  then show "repr h v j"
    unfolding JSON_stringify_def by (rule stringify_repr)
qed

lemma parse_repr:
  "JSON_parse j h = (v, h') \<Longrightarrow> repr h' v j"
  "parse_elements js h = (vs, h') \<Longrightarrow> repr_elements h' vs js"
  "parse_members ms h = (fs, h') \<Longrightarrow> repr_members h' fs ms"
proof (induction j h and js h and ms h arbitrary: v h' and vs h' and fs h'
       rule: JSON_parse_parse_elements_parse_members.induct)
  case (5 js h)
  obtain vs h1 where p: "parse_elements js h = (vs, h1)"
    by (cases "parse_elements js h")
  with "5.prems" have v: "v = Ref (length h1)" and h': "h' = h1 @ [Array vs]"
    by simp_all
  from "5.IH" [OF p] have "repr_elements h1 vs js" .
  then have "repr_elements h' vs js"
    by (rule repr_extend(2)) (simp add: h')
  with v h' show ?case
    by (simp add: deref_def)
next
  case (6 ms h)
  obtain fs h1 where p: "parse_members ms h = (fs, h1)"
    by (cases "parse_members ms h")
  with "6.prems" have v: "v = Ref (length h1)" and h': "h' = h1 @ [Object fs]"
    by simp_all
  from "6.IH" [OF p] have "repr_members h1 fs ms" .
  then have "repr_members h' fs ms"
    by (rule repr_extend(3)) (simp add: h')
  with v h' show ?case
    by (simp add: deref_def)
next
  case (8 j js h)
  obtain v1 h1 where one: "JSON_parse j h = (v1, h1)"
    by (cases "JSON_parse j h")
  obtain vs1 h2 where rest: "parse_elements js h1 = (vs1, h2)"
    by (cases "parse_elements js h1")
  from "8.prems" one rest have eq: "h' = h2" "vs = v1 # vs1"
    by simp_all
  from "8.IH"(1) [OF one] have "repr h1 v1 j" .
  then have "repr h2 v1 j"
    using parse_extends(2) [OF rest] by (rule repr_extend(1))
  moreover from "8.IH"(2) [OF one [symmetric] rest] have "repr_elements h2 vs1 js" .
  ultimately show ?case
    by (simp add: eq)
next
  case (10 m ms h)
  obtain v1 h1 where one: "JSON_parse (snd m) h = (v1, h1)"
    by (cases "JSON_parse (snd m) h")
  obtain fs1 h2 where rest: "parse_members ms h1 = (fs1, h2)"
    by (cases "parse_members ms h1")
  from "10.prems" one rest have eq: "h' = h2" "fs = (fst m, v1) # fs1"
    by simp_all
  from "10.IH"(1) [OF one] have "repr h1 v1 (snd m)" .
  then have "repr h2 v1 (snd m)"
    using parse_extends(3) [OF rest] by (rule repr_extend(1))
  moreover from "10.IH"(2) [OF one [symmetric] rest] have "repr_members h2 fs1 ms" .
  ultimately show ?case
    by (simp add: eq)
qed auto

lemma map_of_all2:
  "list_all2 (\<lambda>f m. fst f = fst m \<and> P (snd f) (snd m)) fs ms
     \<Longrightarrow> rel_option P (map_of fs k) (map_of ms k)"
  by (induction fs ms rule: list_all2_induct) auto

lemma set_field_all2:
  "list_all2 (\<lambda>f m. fst f = fst m \<and> P (snd f) (snd m)) fs ms \<Longrightarrow> P v j
     \<Longrightarrow> list_all2 (\<lambda>f m. fst f = fst m \<and> P (snd f) (snd m)) (set_field k v fs) (set_field k j ms)"
  by (induction fs ms rule: list_all2_induct) auto

lemma component_members:
  "map_of ([(''name'', JStr (c_name c))]
           @ enc_member ''description'' JStr (c_description c)
           @ enc_member ''status'' JStr (c_status c)) ''name'' = Some (JStr (c_name c))"
  "map_of ([(''name'', JStr (c_name c))]
           @ enc_member ''description'' JStr (c_description c)
           @ enc_member ''status'' JStr (c_status c)) ''description''
     = map_option JStr (c_description c)"
  by (simp_all add: enc_member_def split: option.splits)

lemma callback_repr:
  assumes "repr h x (enc_component c)"
  shows "icn_callback lower K h x = Inr (icn_match lower K c)"
proof -
  let ?ms = "[(''name'', JStr (c_name c))]
             @ enc_member ''description'' JStr (c_description c)
             @ enc_member ''status'' JStr (c_status c)"
  from assms obtain a fs where x: "x = Ref a" and a: "deref h a = Some (Object fs)"
    and fs: "list_all2 (\<lambda>f m. fst f = fst m \<and> repr h (snd f) (snd m)) fs ?ms"
    unfolding enc_component_def repr_Object by blast
  from map_of_all2 [OF fs, of "''name''"] have name: "map_of fs ''name'' = Some (Str (c_name c))"
    by (simp only: component_members) (auto simp: option_rel_Some2)
  from map_of_all2 [OF fs, of "''description''"]
  have description: "map_of fs ''description'' = map_option Str (c_description c)"
    by (simp only: component_members) (cases "c_description c"; auto simp: option_rel_Some2)
  from x a name description show ?thesis
    by (cases "c_description c") (simp_all add: icn_callback_def get_prop_def icn_match_def Let_def)
qed

lemma array_filter_repr:
  assumes "list_all2 (\<lambda>x c. repr h x (enc_component c)) xs cs"
  shows "\<exists>kept. array_filter (icn_callback lower K h) xs = Inr kept
           \<and> list_all2 (\<lambda>x c. repr h x (enc_component c)) kept (filter (icn_match lower K) cs)"
  using assms
  by (induction xs cs rule: list_all2_induct) (auto simp: callback_repr)

lemma document_members:
  "map_of (enc_member ''status'' enc_overall (d_status d)
           @ enc_member ''components'' (\<lambda>cs. JArray (map enc_component cs)) (d_components d)
           @ enc_member ''incidents'' (\<lambda>is. JArray (map enc_incident is)) (d_incidents d))
     ''components''
   = map_option (\<lambda>cs. JArray (map enc_component cs)) (d_components d)"
  by (simp add: enc_member_def split: option.splits)

lemma enc_document_update:
  assumes "d_components d = Some cs"
  shows "enc_document (d\<lparr>d_components := Some cs'\<rparr>)
           = JObject (set_field ''components'' (JArray (map enc_component cs'))
               (enc_member ''status'' enc_overall (d_status d)
                @ enc_member ''components'' (\<lambda>cs. JArray (map enc_component cs)) (d_components d)
                @ enc_member ''incidents'' (\<lambda>is. JArray (map enc_incident is)) (d_incidents d)))"
  using assms by (simp add: enc_document_def enc_member_def split: option.splits)

lemma depth_component:
  assumes "d_components d = Some cs" "c \<in> set cs"
  shows "depth (enc_component c) < depth (enc_document d)"
proof -
  from assms(2) have "depth (enc_component c) \<le> depth_elements (map enc_component cs)"
    by (intro depth_element) simp
  then have "depth (enc_component c) < depth (JArray (map enc_component cs))"
    by simp
  moreover from assms(1)
  have "(''components'', JArray (map enc_component cs))
          \<in> set (enc_member ''status'' enc_overall (d_status d)
                 @ enc_member ''components'' (\<lambda>cs. JArray (map enc_component cs)) (d_components d)
                 @ enc_member ''incidents'' (\<lambda>is. JArray (map enc_incident is)) (d_incidents d))"
    by (simp add: enc_member_def)
  from depth_member [OF this]
  have "depth (JArray (map enc_component cs)) < depth (enc_document d)"
    by (simp add: enc_document_def less_Suc_eq_le)
  ultimately show ?thesis
    by simp
qed

text \<open>
  The filter on the store computes the filter on the records: on a store where the
  argument represents the document \<open>d\<close>, it returns a value that represents
  \<open>filterForICN lower K d\<close>.
\<close>

theorem filterForICN_store_refines:
  assumes "JSON_stringify h data = Some (Inr (enc_document d))"
  shows "\<exists>v h'. filterForICN_store lower K h data = Some (Inr v, h')
           \<and> JSON_stringify h' v = Some (Inr (enc_document (filterForICN lower K d)))"
proof -
  let ?ms = "enc_member ''status'' enc_overall (d_status d)
             @ enc_member ''components'' (\<lambda>cs. JArray (map enc_component cs)) (d_components d)
             @ enc_member ''incidents'' (\<lambda>is. JArray (map enc_incident is)) (d_incidents d)"
  let ?R = "\<lambda>g (f :: string \<times> jsval) (m :: string \<times> json). fst f = fst m \<and> repr g (snd f) (snd m)"
  obtain fd h1 where parse: "JSON_parse (enc_document d) h = (fd, h1)"
    by (cases "JSON_parse (enc_document d) h")
  from parse_repr(1) [OF parse] have copy: "repr h1 fd (enc_document d)" .
  then obtain a fs where fd: "fd = Ref a" and a: "deref h1 a = Some (Object fs)"
    and fs: "list_all2 (?R h1) fs ?ms"
    unfolding enc_document_def repr_Object by blast
  from a have a_in: "a < length h1"
    by (simp add: deref_def split: if_splits)
  from fd a have getter: "get_prop h1 fd ''components'' = Inr (map_of fs ''components'')"
    by (simp add: get_prop_def)
  from map_of_all2 [OF fs, of "''components''"]
  have field: "rel_option (repr h1) (map_of fs ''components'')
                 (map_option (\<lambda>cs. JArray (map enc_component cs)) (d_components d))"
    by (simp only: document_members)
  show ?thesis
  proof (cases "d_components d")
    case None
    with field have "map_of fs ''components'' = None"
      by simp
    with assms parse getter have "filterForICN_store lower K h data = Some (Inr fd, h1)"
      by (simp add: filterForICN_store_def)
    moreover from None have "filterForICN lower K d = d"
      by (simp add: filterForICN_def)
    moreover from copy have "JSON_stringify h1 fd = Some (Inr (enc_document d))"
      by (simp add: repr_JSON_stringify)
    ultimately show ?thesis
      by simp
  next
    case (Some cs)
    let ?kept = "filter (icn_match lower K) cs"
    from field Some obtain vc where vc: "map_of fs ''components'' = Some vc"
      and "repr h1 vc (JArray (map enc_component cs))"
      by (auto simp: option_rel_Some2)
    then obtain c xs where c: "vc = Ref c" "deref h1 c = Some (Array xs)"
      and xs: "list_all2 (repr h1) xs (map enc_component cs)"
      unfolding repr_Array by blast
    from xs have "list_all2 (\<lambda>x c. repr h1 x (enc_component c)) xs cs"
      by (simp add: list_all2_map2)
    from array_filter_repr [OF this, of lower K] obtain kept
      where kept: "array_filter (icn_callback lower K h1) xs = Inr kept"
        and kept_repr: "list_all2 (\<lambda>x c. repr h1 x (enc_component c)) kept ?kept"
      by blast
    let ?new = "Object (set_field ''components'' (Ref (length h1)) fs)"
    let ?h2 = "h1 @ [Array kept]"
    let ?h' = "?h2[a := ?new]"
    from assms parse getter vc c a kept fd
    have run: "filterForICN_store lower K h data = Some (Inr fd, ?h')"
      by (simp add: filterForICN_store_def)
    have root: "repr ?h2 (Ref a) (enc_document d)"
      using copy fd by (auto intro: repr_extend(1))
    have lift: "repr ?h' v j" if "repr h1 v j" "depth j < depth (enc_document d)" for v j
    proof -
      from that(1) have "repr ?h2 v j"
        by (rule repr_extend(1)) simp
      from repr_update(1) [OF this root that(2)] show ?thesis .
    qed
    have members: "list_all2 (?R ?h') fs ?ms"
    proof (rule list.rel_mono_strong [OF fs])
      fix f :: "string \<times> jsval" and m :: "string \<times> json"
      assume "m \<in> set ?ms"
      then have "depth (snd m) < depth (enc_document d)"
        using depth_member [of m ?ms] by (simp add: enc_document_def less_Suc_eq_le)
      moreover assume "?R h1 f m"
      ultimately show "?R ?h' f m"
        using lift by blast
    qed
    have "list_all2 (\<lambda>x c. repr ?h' x (enc_component c)) kept ?kept"
    proof (rule list.rel_mono_strong [OF kept_repr])
      fix x c
      assume "c \<in> set ?kept"
      then have "depth (enc_component c) < depth (enc_document d)"
        using depth_component [OF Some] by simp
      moreover assume "repr h1 x (enc_component c)"
      ultimately show "repr ?h' x (enc_component c)"
        by (intro lift)
    qed
    then have "list_all2 (repr ?h') kept (map enc_component ?kept)"
      by (simp add: list_all2_map2)
    moreover from a_in have "deref ?h' (length h1) = Some (Array kept)"
      by (simp add: deref_def nth_list_update nth_append)
    ultimately have array: "repr ?h' (Ref (length h1)) (JArray (map enc_component ?kept))"
      unfolding repr_Array by blast
    from set_field_all2 [where P = "repr ?h'", OF members array, of "''components''"]
    have "list_all2 (?R ?h') (set_field ''components'' (Ref (length h1)) fs)
            (set_field ''components'' (JArray (map enc_component ?kept)) ?ms)" .
    moreover from a_in have "deref ?h' a = Some ?new"
      by (simp add: deref_def)
    ultimately have "repr ?h' (Ref a)
        (JObject (set_field ''components'' (JArray (map enc_component ?kept)) ?ms))"
      unfolding repr_Object by blast
    with Some have "repr ?h' fd (enc_document (filterForICN lower K d))"
      by (simp add: fd filterForICN_def enc_document_update del: repr.simps)
    then have "JSON_stringify ?h' fd = Some (Inr (enc_document (filterForICN lower K d)))"
      by (simp add: repr_JSON_stringify)
    with run show ?thesis
      by blast
  qed
qed

end
